theory Spec2Isabelle
  imports Main "HOL-Library.Char_ord" "HOL-Library.List_Lexorder"
begin

section \<open>Strings and paths\<close>

text \<open>
  A Python \<open>str\<close> is modelled as a \<open>string\<close> (a list of 8-bit characters), a
  \<open>pathlib.Path\<close> as the string of the POSIX path, compared by equality of the strings
  (the POSIX flavour of \<open>pathlib\<close>). The character classes are the ASCII ones: \<open>\d\<close> and
  \<open>str.isdigit\<close> are the ten digits, \<open>str.upper\<close> maps \<open>a..z\<close> to \<open>A..Z\<close>
  and leaves every other character alone.
\<close>

type_synonym path = string

definition is_digit :: "char \<Rightarrow> bool" where
  "is_digit c = (c \<in> set ''0123456789'')"

definition is_space :: "char \<Rightarrow> bool" where
  \<comment> \<open>the ASCII characters \<open>str.strip()\<close> removes: tab, LF, VT, FF, CR, FS, GS, RS, US, space\<close>
  "is_space c = (c \<in> set [CHR 0x09, CHR 0x0A, CHR 0x0B, CHR 0x0C, CHR 0x0D,
                          CHR 0x1C, CHR 0x1D, CHR 0x1E, CHR 0x1F, CHR 0x20])"

definition upper_char :: "char \<Rightarrow> char" where
  "upper_char c =
     (case map_of (zip ''abcdefghijklmnopqrstuvwxyz'' ''ABCDEFGHIJKLMNOPQRSTUVWXYZ'') c of
        Some u \<Rightarrow> u
      | None \<Rightarrow> c)"

definition upper :: "string \<Rightarrow> string" where
  "upper s = map upper_char s"

fun startswith :: "string \<Rightarrow> string \<Rightarrow> bool" where
  "startswith s [] = True"
| "startswith [] (p # ps) = False"
| "startswith (c # cs) (p # ps) = (c = p \<and> startswith cs ps)"

definition endswith :: "string \<Rightarrow> string \<Rightarrow> bool" where
  "endswith s e = startswith (rev s) (rev e)"

fun contains :: "string \<Rightarrow> string \<Rightarrow> bool" where
  \<comment> \<open>\<open>contains s sub\<close> is Python's \<open>sub in s\<close>\<close>
  "contains [] sub = (sub = [])"
| "contains (c # cs) sub = (startswith (c # cs) sub \<or> contains cs sub)"

definition strip :: "string \<Rightarrow> string" where
  "strip s = rev (dropWhile is_space (rev (dropWhile is_space s)))"

definition zfill :: "nat \<Rightarrow> string \<Rightarrow> string" where
  \<comment> \<open>\<open>str.zfill\<close>: zeros go after a leading sign; a string already wide enough is unchanged\<close>
  "zfill w s =
     (if w \<le> length s then s
      else case s of
        [] \<Rightarrow> replicate w CHR ''0''
      | c # r \<Rightarrow>
          if c = CHR ''+'' \<or> c = CHR ''-''
          then c # replicate (w - length s) CHR ''0'' @ r
          else replicate (w - length s) CHR ''0'' @ s)"

definition path_name :: "path \<Rightarrow> string" where
  \<comment> \<open>\<open>Path.name\<close>: the last component of the path\<close>
  "path_name p = rev (takeWhile (\<lambda>c. c \<noteq> CHR ''/'') (rev p))"

definition joinpath :: "path \<Rightarrow> string \<Rightarrow> path" where
  \<comment> \<open>\<open>Path(d) / m\<close>: an absolute right operand replaces the left one\<close>
  "joinpath d m = (if startswith m ''/'' then m else d @ ''/'' @ m)"

fun fromkeys :: "'a list \<Rightarrow> 'a list" where
  \<comment> \<open>\<open>list(dict.fromkeys(xs))\<close>: the first occurrence of every element, in order\<close>
  "fromkeys [] = []"
| "fromkeys (x # xs) = x # fromkeys (filter (\<lambda>y. y \<noteq> x) xs)"

section \<open>Filer id and form family from a file name (\<open>zip_processor.py\<close>)\<close>

text \<open>
  \<open>re.search\<close> tries the pattern at every start position from the left, the end of the
  string included, and returns the first match; \<open>re_search m\<close> does so for a pattern given
  by its anchored matcher \<open>m\<close>, which returns group 1. A quantifier \<open>\d{a,b}\<close> is greedy and
  nothing follows it in either pattern, so an anchored match takes the longest run of at most
  \<open>b\<close> digits and fails when fewer than \<open>a\<close> are there.
\<close>

fun re_search :: "(string \<Rightarrow> string option) \<Rightarrow> string \<Rightarrow> string option" where
  "re_search m [] = m []"
| "re_search m (c # cs) = (case m (c # cs) of Some g \<Rightarrow> Some g | None \<Rightarrow> re_search m cs)"

definition digits_upto :: "nat \<Rightarrow> string \<Rightarrow> string" where
  "digits_upto n s = take n (takeWhile is_digit s)"

definition match_labeled :: "string \<Rightarrow> string option" where
  \<comment> \<open>\<open>edgar_data_(\d{1,10})\<close> anchored at the start of \<open>s\<close>\<close>
  "match_labeled s =
     (if startswith s ''edgar_data_''
      then (let g = digits_upto 10 (drop 11 s) in if 1 \<le> length g then Some g else None)
      else None)"

definition match_digits :: "string \<Rightarrow> string option" where
  \<comment> \<open>\<open>(\d{4,10})\<close> anchored at the start of \<open>s\<close>\<close>
  "match_digits s = (let g = digits_upto 10 s in if 4 \<le> length g then Some g else None)"

definition extract_cik_from_name :: "string \<Rightarrow> string option" where
  \<comment> \<open>\<open>ZipProcessor._extract_cik_from_name\<close>\<close>
  "extract_cik_from_name filename =
     (case re_search match_labeled filename of
        Some g \<Rightarrow> Some (zfill 10 g)
      | None \<Rightarrow>
          (case re_search match_digits filename of
             Some g \<Rightarrow> Some (zfill 10 g)
           | None \<Rightarrow> None))"

definition is_10k :: "string \<Rightarrow> bool" where
  \<comment> \<open>\<open>ZipProcessor._is_10k\<close>\<close>
  "is_10k filename = (contains (upper filename) ''10-K'' \<or> contains (upper filename) ''10K'')"

section \<open>Identifier set loaders (\<open>cik_filter.py\<close>, \<open>cik_loader.py\<close>)\<close>

text \<open>
  The tabular source is modelled by what \<open>csv.reader\<close> yields: a list of rows, each a list
  of fields; \<open>None\<close> is a path that does not exist. The two modules define a function of the
  same name, \<open>load_cik_list\<close>; the module's name is put before it here.
\<close>

definition cik_filter_row :: "string list \<Rightarrow> string option" where
  \<comment> \<open>the body of the loop of \<open>cik_filter.load_cik_list\<close>: what one row adds, if anything\<close>
  "cik_filter_row row =
     (case row of
        [] \<Rightarrow> None
      | field # _ \<Rightarrow>
          (let cik = strip field in
           if cik \<noteq> [] then
             (let cik_digits = filter is_digit cik in
              if cik_digits \<noteq> [] then Some (zfill 10 cik_digits) else None)
           else None))"

definition cik_filter_load_cik_list :: "string list list option \<Rightarrow> string set" where
  "cik_filter_load_cik_list src =
     (case src of
        None \<Rightarrow> {}
      | Some rows \<Rightarrow>
          fold (\<lambda>row ciks. case cik_filter_row row of None \<Rightarrow> ciks | Some c \<Rightarrow> insert c ciks)
            rows {})"

definition cik_loader_row :: "string list \<Rightarrow> string option" where
  \<comment> \<open>the body of the loop of \<open>cik_loader.load_cik_list\<close>\<close>
  "cik_loader_row row =
     (case row of
        [] \<Rightarrow> None
      | field # _ \<Rightarrow>
          (let cik = strip field in
           if cik \<noteq> [] then Some (zfill 10 cik) else None))"

definition cik_loader_load_cik_list :: "string list list option \<Rightarrow> string set" where
  "cik_loader_load_cik_list src =
     (case src of
        None \<Rightarrow> {}
      | Some rows \<Rightarrow>
          fold (\<lambda>row ciks. case cik_loader_row row of None \<Rightarrow> ciks | Some c \<Rightarrow> insert c ciks)
            rows {})"

section \<open>The collaborators of \<open>ZipProcessor\<close>\<close>

text \<open>
  The file system, the archives, the configuration constants and the classes \<open>FilingManager\<close>
  and \<open>MDNAExtractor\<close> are not part of the sources that are modelled; they are the fields of
  an environment, and every property below holds for each environment.
  \<^item> \<open>glob e pat\<close> is \<open>input_dir.glob(pat)\<close>.
  \<^item> \<open>zip_open e z\<close> is the result of \<open>zipfile.ZipFile(z, 'r')\<close> followed by \<open>namelist()\<close>:
    the exception \<open>BadZipFile\<close>, another exception with its message, or the member names.
  \<^item> \<open>unpack_fails e z m\<close> says that \<open>zf.extract(m, tmp)\<close> raises during discovery, and
    \<open>mkdtemp e n\<close> is the directory the \<open>n\<close>-th call of \<open>tempfile.mkdtemp()\<close> returns.
  \<^item> \<open>parse_filename_metadata e\<close> is \<open>FilingManager._parse_filename_metadata\<close>, and
    \<open>select_filings_to_process e\<close> is \<open>FilingManager._select_filings_to_process\<close> as a
    function of the \<open>add_filing\<close> calls made before it, in order; it returns the lists
    \<open>selection["process"]\<close> and \<open>selection["skip"]\<close>.
  \<^item> \<open>extract_member e z m\<close> is the outcome of unpacking member \<open>m\<close> of archive \<open>z\<close> and
    running the extractor on it (\<open>process_zip_file\<close>), \<open>extract_from_file e r fp\<close> the outcome
    of \<open>extractor.extract_from_file(fp, reference_resolver)\<close>, where \<open>r\<close> says whether a
    resolver was built: a truthy result, a falsy one, or an exception with its message.
  A Python \<open>set\<close> is iterated in an order the language does not fix; the model iterates it in
  the order of first insertion.
\<close>

datatype outcome = Extracted | Falsy | Raised string

datatype archive = BadZipFile | OpenError string | Members "string list"

type_synonym metadata = "string option \<times> int option \<times> string option"

type_synonym filing = "path \<times> string \<times> int \<times> string"

record env =
  VALID_EXTENSIONS :: "string list"
  ZIP_EXTENSIONS :: "string list"
  glob :: "string \<Rightarrow> path list"
  zip_open :: "path \<Rightarrow> archive"
  unpack_fails :: "path \<Rightarrow> string \<Rightarrow> bool"
  mkdtemp :: "nat \<Rightarrow> path"
  parse_filename_metadata :: "path \<Rightarrow> metadata"
  select_filings_to_process :: "filing list \<Rightarrow> path list \<times> path list"
  extract_member :: "path \<Rightarrow> string \<Rightarrow> outcome"
  extract_from_file :: "bool \<Rightarrow> path \<Rightarrow> outcome"

record counts =
  total_files :: nat
  processed :: nat
  failed :: nat

record zip_result = counts +
  zip_file :: string
  errors :: "(string \<times> string) list"

record overall_stats = counts +
  total_zips :: nat
  zip_stats :: "zip_result list"

record combined_counts = counts +
  skipped_10q :: nat

record mixed_stats =
  zip_results :: counts
  text_results :: counts
  combined :: combined_counts
  mixed_errors :: "string list"

definition truthy :: "string option \<Rightarrow> bool" where
  \<comment> \<open>the truth value of an \<open>Optional[str]\<close>\<close>
  "truthy x = (case x of None \<Rightarrow> False | Some s \<Rightarrow> s \<noteq> [])"

definition in_filter :: "string set \<Rightarrow> string option \<Rightarrow> bool" where
  \<comment> \<open>\<open>cik and cik in cik_filter\<close>\<close>
  "in_filter F cik = (case cik of None \<Rightarrow> False | Some c \<Rightarrow> c \<noteq> [] \<and> c \<in> F)"

definition starts_10k :: "string option \<Rightarrow> bool" where
  \<comment> \<open>\<open>form_type and form_type.startswith("10-K")\<close>\<close>
  "starts_10k ft = (case ft of None \<Rightarrow> False | Some t \<Rightarrow> t \<noteq> [] \<and> startswith t ''10-K'')"

definition starts_10q :: "string option \<Rightarrow> bool" where
  \<comment> \<open>\<open>ft and ft.startswith("10-Q")\<close>\<close>
  "starts_10q ft = (case ft of None \<Rightarrow> False | Some t \<Rightarrow> t \<noteq> [] \<and> startswith t ''10-Q'')"

definition has_valid_ext :: "env \<Rightarrow> string \<Rightarrow> bool" where
  \<comment> \<open>\<open>any(f.endswith(ext) for ext in VALID_EXTENSIONS)\<close>\<close>
  "has_valid_ext e f = list_ex (endswith f) (VALID_EXTENSIONS e)"

definition name_filter :: "string set \<Rightarrow> string \<Rightarrow> bool" where
  \<comment> \<open>\<open>cik and cik in cik_filter and self._is_10k(name)\<close> with \<open>cik\<close> extracted from the name\<close>
  "name_filter F n = (in_filter F (extract_cik_from_name n) \<and> is_10k n)"

section \<open>\<open>process_zip_file\<close> and \<open>process_directory\<close>\<close>

definition zip_skips :: "string set option \<Rightarrow> metadata \<Rightarrow> bool" where
  \<comment> \<open>the two \<open>continue\<close> statements of the loop of \<open>process_zip_file\<close>\<close>
  "zip_skips flt md =
     (case flt of
        None \<Rightarrow> False
      | Some F \<Rightarrow> (case md of (cik, year, form_type) \<Rightarrow>
          \<not> in_filter F cik \<or> \<not> starts_10k form_type))"

fun zip_loop :: "env \<Rightarrow> path \<Rightarrow> string set option \<Rightarrow> string list \<Rightarrow> zip_result \<Rightarrow> zip_result" where
  "zip_loop e z flt [] stats = stats"
| "zip_loop e z flt (file_name # rest) stats =
     (if zip_skips flt (parse_filename_metadata e file_name) then zip_loop e z flt rest stats
      else zip_loop e z flt rest
        (case extract_member e z file_name of
           Extracted \<Rightarrow> stats\<lparr>processed := processed stats + 1\<rparr>
         | Falsy \<Rightarrow> stats\<lparr>failed := failed stats + 1,
                           errors := errors stats @ [(file_name, ''Extraction failed'')]\<rparr>
         | Raised msg \<Rightarrow> stats\<lparr>failed := failed stats + 1,
                                errors := errors stats @ [(file_name, msg)]\<rparr>))"

definition process_zip_file :: "env \<Rightarrow> path \<Rightarrow> string set option \<Rightarrow> zip_result" where
  "process_zip_file e zip_path cik_filter =
     (let stats = \<lparr>total_files = 0, processed = 0, failed = 0, zip_file = zip_path, errors = []\<rparr>
      in case zip_open e zip_path of
           BadZipFile \<Rightarrow> stats\<lparr>errors := errors stats @ [(zip_path, ''Invalid ZIP file'')]\<rparr>
         | OpenError msg \<Rightarrow> stats\<lparr>errors := errors stats @ [(zip_path, msg)]\<rparr>
         | Members file_list \<Rightarrow>
             (let text_files = filter (has_valid_ext e) file_list;
                  text_files = (case cik_filter of
                                  None \<Rightarrow> text_files
                                | Some F \<Rightarrow> filter (name_filter F) text_files)
              in zip_loop e zip_path cik_filter text_files
                   (stats\<lparr>total_files := length text_files\<rparr>)))"

fun directory_loop ::
  "env \<Rightarrow> string set option \<Rightarrow> path list \<Rightarrow> overall_stats \<Rightarrow> overall_stats" where
  "directory_loop e flt [] overall = overall"
| "directory_loop e flt (zip_path # rest) overall =
     (let stats = process_zip_file e zip_path flt
      in directory_loop e flt rest
           (overall\<lparr>zip_stats := zip_stats overall @ [stats],
                    total_files := total_files overall + total_files stats,
                    processed := processed overall + processed stats,
                    failed := failed overall + failed stats\<rparr>))"

definition process_directory :: "env \<Rightarrow> string set option \<Rightarrow> overall_stats" where
  "process_directory e cik_filter =
     (let zip_files = concat (map (\<lambda>ext. glob e (''*'' @ ext)) (ZIP_EXTENSIONS e));
          zip_files = fromkeys zip_files;
          overall = \<lparr>total_files = 0, processed = 0, failed = 0,
                     total_zips = length zip_files, zip_stats = []\<rparr>
      in directory_loop e cik_filter (sort zip_files) overall)"

section \<open>\<open>process_mixed_directory\<close>\<close>

fun unpack_members :: "env \<Rightarrow> path \<Rightarrow> string list \<Rightarrow> nat \<Rightarrow> path list \<times> nat" where
  \<comment> \<open>the loop over \<open>zf.namelist()\<close>; an exception of \<open>zf.extract\<close> ends it, and what was
      appended before stays in \<open>zip_text_files\<close>\<close>
  "unpack_members e z [] n = ([], n)"
| "unpack_members e z (member # rest) n =
     (if has_valid_ext e member
      then (if unpack_fails e z member then ([], Suc n)
            else (case unpack_members e z rest (Suc n) of
                    (ps, n') \<Rightarrow> (joinpath (mkdtemp e n) member # ps, n')))
      else unpack_members e z rest n)"

fun discover_zips :: "env \<Rightarrow> path list \<Rightarrow> nat \<Rightarrow> path list" where
  \<comment> \<open>the loop over the archives; an archive that cannot be opened is logged and passed over\<close>
  "discover_zips e [] n = []"
| "discover_zips e (zip_path # rest) n =
     (case zip_open e zip_path of
        Members ms \<Rightarrow>
          (case unpack_members e zip_path ms n of
             (ps, n') \<Rightarrow> ps @ discover_zips e rest n')
      | BadZipFile \<Rightarrow> discover_zips e rest n
      | OpenError msg \<Rightarrow> discover_zips e rest n)"

definition match :: "string set option \<Rightarrow> path \<Rightarrow> bool" where
  \<comment> \<open>the local function \<open>_match\<close>\<close>
  "match cik_filter fp =
     (case cik_filter of None \<Rightarrow> True | Some F \<Rightarrow> name_filter F (path_name fp))"

definition mixed_candidates :: "env \<Rightarrow> string set option \<Rightarrow> path list \<times> path list" where
  \<comment> \<open>step 1 of \<open>process_mixed_directory\<close>: \<open>zip_text_files\<close> and \<open>loose_files\<close> after the
      filter and the removal of duplicates\<close>
  "mixed_candidates e cik_filter =
     (let zip_text_files = discover_zips e (fromkeys (glob e ''*.zip'' @ glob e ''*.ZIP'')) 0;
          loose_files = concat (map (\<lambda>ext. glob e (''*'' @ ext)) (VALID_EXTENSIONS e));
          zip_text_files = (if cik_filter \<noteq> None then filter (match cik_filter) zip_text_files
                            else zip_text_files);
          loose_files = (if cik_filter \<noteq> None then filter (match cik_filter) loose_files
                         else loose_files)
      in (fromkeys zip_text_files, fromkeys loose_files))"

definition mixed_skips :: "string set option \<Rightarrow> metadata \<Rightarrow> bool" where
  \<comment> \<open>the two \<open>continue\<close> statements of the registration loop\<close>
  "mixed_skips flt md =
     (case flt of
        None \<Rightarrow> False
      | Some F \<Rightarrow> (case md of (cik, year, form_type) \<Rightarrow>
          \<not> in_filter F cik \<or> (truthy form_type \<and> \<not> starts_10k form_type)))"

definition add_filing_args :: "path \<Rightarrow> metadata \<Rightarrow> filing option" where
  \<comment> \<open>\<open>if cik and year and form_type: fm.add_filing(fp, cik, year, form_type)\<close>; the year
      is an integer, of which zero is falsy\<close>
  "add_filing_args fp md =
     (case md of
        (Some cik, Some year, Some form_type) \<Rightarrow>
          if cik \<noteq> [] \<and> year \<noteq> 0 \<and> form_type \<noteq> [] then Some (fp, cik, year, form_type)
          else None
      | _ \<Rightarrow> None)"

fun register :: "env \<Rightarrow> string set option \<Rightarrow> path list \<Rightarrow> filing list" where
  \<comment> \<open>step 2: the \<open>add_filing\<close> calls, in order\<close>
  "register e flt [] = []"
| "register e flt (fp # rest) =
     (let md = parse_filename_metadata e fp in
      if mixed_skips flt md then register e flt rest
      else (case add_filing_args fp md of
              Some f \<Rightarrow> f # register e flt rest
            | None \<Rightarrow> register e flt rest))"

definition mixed_selection :: "env \<Rightarrow> string set option \<Rightarrow> path list \<times> path list" where
  \<comment> \<open>step 3: \<open>to_process\<close> and \<open>to_skip\<close>\<close>
  "mixed_selection e cik_filter =
     (case mixed_candidates e cik_filter of
        (zip_text_files, loose_files) \<Rightarrow>
          (case select_filings_to_process e (register e cik_filter (zip_text_files @ loose_files)) of
             (process, skip) \<Rightarrow> (fromkeys process, fromkeys skip)))"

definition count_processed :: "bool \<Rightarrow> mixed_stats \<Rightarrow> mixed_stats" where
  "count_processed in_zip stats =
     (let stats = stats\<lparr>combined := (combined stats)\<lparr>processed := processed (combined stats) + 1\<rparr>\<rparr>
      in if in_zip
         then stats\<lparr>zip_results := (zip_results stats)\<lparr>processed := processed (zip_results stats) + 1\<rparr>\<rparr>
         else stats\<lparr>text_results := (text_results stats)\<lparr>processed := processed (text_results stats) + 1\<rparr>\<rparr>)"

definition count_failed :: "bool \<Rightarrow> string \<Rightarrow> mixed_stats \<Rightarrow> mixed_stats" where
  "count_failed in_zip entry stats =
     (let stats = stats\<lparr>combined := (combined stats)\<lparr>failed := failed (combined stats) + 1\<rparr>,
                        mixed_errors := mixed_errors stats @ [entry]\<rparr>
      in if in_zip
         then stats\<lparr>zip_results := (zip_results stats)\<lparr>failed := failed (zip_results stats) + 1\<rparr>\<rparr>
         else stats\<lparr>text_results := (text_results stats)\<lparr>failed := failed (text_results stats) + 1\<rparr>\<rparr>)"

fun extract_selected ::
  "env \<Rightarrow> bool \<Rightarrow> path list \<Rightarrow> path list \<Rightarrow> mixed_stats \<Rightarrow> mixed_stats" where
  \<comment> \<open>step 4: the loop over \<open>to_process\<close>\<close>
  "extract_selected e resolve zip_text_files [] stats = stats"
| "extract_selected e resolve zip_text_files (fp # rest) stats =
     extract_selected e resolve zip_text_files rest
       (case extract_from_file e resolve fp of
          Extracted \<Rightarrow> count_processed (fp \<in> set zip_text_files) stats
        | Falsy \<Rightarrow> count_failed (fp \<in> set zip_text_files) fp stats
        | Raised msg \<Rightarrow> count_failed (fp \<in> set zip_text_files) (fp @ '': '' @ msg) stats)"

fun count_skipped :: "env \<Rightarrow> path list \<Rightarrow> mixed_stats \<Rightarrow> mixed_stats" where
  \<comment> \<open>step 5: the loop over \<open>to_skip\<close>\<close>
  "count_skipped e [] stats = stats"
| "count_skipped e (fp # rest) stats =
     count_skipped e rest
       (case parse_filename_metadata e fp of
          (cik, year, ft) \<Rightarrow>
            if starts_10q ft
            then stats\<lparr>combined := (combined stats)\<lparr>skipped_10q := skipped_10q (combined stats) + 1\<rparr>\<rparr>
            else stats)"

definition process_mixed_directory :: "env \<Rightarrow> bool \<Rightarrow> string set option \<Rightarrow> mixed_stats" where
  "process_mixed_directory e resolve_references cik_filter =
     (case mixed_candidates e cik_filter of
        (zip_text_files, loose_files) \<Rightarrow>
          (case mixed_selection e cik_filter of
             (to_process, to_skip) \<Rightarrow>
               (let all_text_files = zip_text_files @ loose_files;
                    stats = \<lparr>zip_results = \<lparr>total_files = length zip_text_files,
                                             processed = 0, failed = 0\<rparr>,
                             text_results = \<lparr>total_files = length loose_files,
                                              processed = 0, failed = 0\<rparr>,
                             combined = \<lparr>total_files = length all_text_files,
                                          processed = 0, failed = 0, skipped_10q = 0\<rparr>,
                             mixed_errors = []\<rparr>;
                    stats = extract_selected e resolve_references zip_text_files to_process stats
                in count_skipped e to_skip stats)))"

section \<open>The filing registry and the selection engine\<close>

text \<open>
  The class \<open>FilingManager\<close> (\<open>src/core/filing_manager.py\<close>) is not among the sources.
  The registry, the selection and the form buckets below are written from sections 3, 4.3
  and 4.4 of the specification; \<open>process_mixed_directory\<close> above takes the class as the
  fields \<open>parse_filename_metadata\<close> and \<open>select_filings_to_process\<close> of its environment.
\<close>

datatype origin = Archive | Loose

datatype bucket = Annual | Quarterly | Other

record candidate =
  cand_path :: path
  filer_id :: "string option"
  fiscal_year :: "int option"
  form_type :: "string option"
  origin :: origin

type_synonym group_key = "string \<times> int"

type_synonym registry = "(group_key \<times> candidate list) list"

definition bucket_of :: "string option \<Rightarrow> bucket" where
  \<comment> \<open>Modelled from the spec: the classification of a form type of section 3, which
      \<open>FilingManager\<close> would hold: Annual for the 10-K family, Quarterly for the 10-Q
      family, without regard to case or to the hyphen; every other or absent type is Other.\<close>
  "bucket_of ft =
     (case ft of
        None \<Rightarrow> Other
      | Some t \<Rightarrow>
          if contains (upper t) ''10-K'' \<or> contains (upper t) ''10K'' then Annual
          else if contains (upper t) ''10-Q'' \<or> contains (upper t) ''10Q'' then Quarterly
          else Other)"

fun insert_group :: "group_key \<Rightarrow> candidate \<Rightarrow> registry \<Rightarrow> registry" where
  \<comment> \<open>Modelled from the spec: the registry of section 4.3, missing with \<open>FilingManager\<close>:
      a candidate joins the group of its key, at the end; a new key opens a group after
      those there, so that groups stand in the order in which their keys were first seen.\<close>
  "insert_group k c [] = [(k, [c])]"
| "insert_group k c ((k', g) # rest) =
     (if k' = k then (k', g @ [c]) # rest else (k', g) # insert_group k c rest)"

definition registry_add :: "candidate \<Rightarrow> registry \<Rightarrow> registry" where
  \<comment> \<open>Modelled from the spec: \<open>add(candidate)\<close> of section 4.3, missing with
      \<open>FilingManager\<close>: inserted only if filer id and fiscal year are both present,
      dropped otherwise.\<close>
  "registry_add c reg =
     (case (filer_id c, fiscal_year c) of
        (Some f, Some y) \<Rightarrow> insert_group (f, y) c reg
      | _ \<Rightarrow> reg)"

definition registry_of :: "candidate list \<Rightarrow> registry" where
  \<comment> \<open>Modelled from the spec: the registry state after the candidates were added in
      discovery order, starting from the empty registry.\<close>
  "registry_of cs = foldl (\<lambda>reg c. registry_add c reg) [] cs"

definition registry_groups :: "registry \<Rightarrow> candidate list list" where
  \<comment> \<open>Modelled from the spec: \<open>groups()\<close> of section 4.3, missing with \<open>FilingManager\<close>.\<close>
  "registry_groups reg = map snd reg"

definition choose_candidate :: "candidate list \<Rightarrow> candidate option" where
  \<comment> \<open>Modelled from the spec: rules A, B and C of section 4.4, the part of
      \<open>FilingManager._select_filings_to_process\<close> that picks a group's candidate: the first
      Annual one; without an Annual one the first Quarterly one; else the first one.\<close>
  "choose_candidate g =
     (case filter (\<lambda>c. bucket_of (form_type c) = Annual) g of
        a # _ \<Rightarrow> Some a
      | [] \<Rightarrow>
          (case filter (\<lambda>c. bucket_of (form_type c) = Quarterly) g of
             q # _ \<Rightarrow> Some q
           | [] \<Rightarrow> (case g of c # _ \<Rightarrow> Some c | [] \<Rightarrow> None)))"

definition select_group :: "candidate list \<Rightarrow> candidate list \<times> candidate list" where
  \<comment> \<open>Modelled from the spec: section 4.4 for one group, missing with \<open>FilingManager\<close>: the
      chosen candidate is processed, every other candidate of the group is skipped.\<close>
  "select_group g =
     (case choose_candidate g of
        None \<Rightarrow> ([], [])
      | Some c \<Rightarrow> ([c], filter (\<lambda>d. d \<noteq> c) g))"

definition select_lists :: "candidate list list \<Rightarrow> candidate list \<times> candidate list" where
  \<comment> \<open>Modelled from the spec: the selection of section 4.4 over all groups, in group order.\<close>
  "select_lists gs =
     (concat (map (\<lambda>g. fst (select_group g)) gs), concat (map (\<lambda>g. snd (select_group g)) gs))"

definition select :: "candidate list list \<Rightarrow> candidate set \<times> candidate set" where
  \<comment> \<open>Modelled from the spec: \<open>select(groups)\<close> of section 4.4, missing with
      \<open>FilingManager\<close>: the sets \<open>process\<close> and \<open>skip\<close>.\<close>
  "select gs = (set (fst (select_lists gs)), set (snd (select_lists gs)))"

definition fm_select :: "(path \<Rightarrow> origin) \<Rightarrow> filing list \<Rightarrow> path list \<times> path list" where
  \<comment> \<open>Modelled from the spec: \<open>FilingManager._select_filings_to_process\<close> after the given
      \<open>add_filing\<close> calls: each call is a candidate added to the registry, and the selection
      is returned as the paths of the chosen and of the skipped candidates.\<close>
  "fm_select org log =
     (let cs = map (\<lambda>(fp, cik, year, ft).
                  \<lparr>cand_path = fp, filer_id = Some cik, fiscal_year = Some year,
                   form_type = Some ft, origin = org fp\<rparr>) log;
          sel = select_lists (registry_groups (registry_of cs))
      in (map cand_path (fst sel), map cand_path (snd sel)))"


definition registry_inv :: "registry \<Rightarrow> bool" where
  \<comment> \<open>the invariant of the registry: no key twice, no empty group, and every candidate of
      a group bears the key of the group\<close>
  "registry_inv reg =
     (distinct (map fst reg) \<and>
      (\<forall>(k, g) \<in> set reg. g \<noteq> [] \<and>
         (\<forall>c \<in> set g. filer_id c = Some (fst k) \<and> fiscal_year c = Some (snd k))))"

section \<open>A directory for the examples\<close>

definition example_env ::
  "path list \<Rightarrow> (path \<Rightarrow> archive) \<Rightarrow> (path \<Rightarrow> metadata) \<Rightarrow>
   (filing list \<Rightarrow> path list \<times> path list) \<Rightarrow> (path \<Rightarrow> outcome) \<Rightarrow> env" where
  \<comment> \<open>an environment over a POSIX directory listing: \<open>glob\<close> of \<open>*suffix\<close> keeps the listed
      paths whose name ends with the suffix, every member unpacks, the \<open>n\<close>-th temporary
      directory is \<open>/tmp/t\<close> followed by \<open>n + 1\<close> letters, and the outcome of an extraction
      is a function of the path of the file (of archive and member in \<open>process_zip_file\<close>)\<close>
  "example_env files zopen parse sel ext =
     \<lparr>VALID_EXTENSIONS = [''.txt'', ''.TXT''],
      ZIP_EXTENSIONS = [''.zip'', ''.ZIP''],
      glob = (\<lambda>pat. filter (\<lambda>p. endswith (path_name p) (drop 1 pat)) files),
      zip_open = zopen,
      unpack_fails = (\<lambda>z m. False),
      mkdtemp = (\<lambda>n. ''/tmp/t'' @ replicate (Suc n) CHR ''a''),
      parse_filename_metadata = parse,
      select_filings_to_process = sel,
      extract_member = (\<lambda>z m. ext (joinpath z m)),
      extract_from_file = (\<lambda>r. ext)\<rparr>"

definition three_archives :: "path \<Rightarrow> archive" where
  \<comment> \<open>the archives of the examples: \<open>/in/bad.zip\<close> is corrupt, the others are valid\<close>
  "three_archives z =
     (if z = ''/in/bad.zip'' then BadZipFile
      else if z = ''/in/a.zip'' then Members [''a_10-K.txt'', ''readme.pdf'']
      else Members [''x_10-K.txt'', ''y_10-K.txt''])"

definition three_archives_dir :: "path list" where
  "three_archives_dir = [''/in/a.zip'', ''/in/bad.zip'', ''/in/c.zip'']"

definition own_filer :: "path \<Rightarrow> metadata" where
  \<comment> \<open>a parser for the examples: every file name is a filer of its own, with a 10-K of 2020\<close>
  "own_filer p = (Some (path_name p), Some 2020, Some ''10-K'')"

definition flaky :: "path \<Rightarrow> outcome" where
  \<comment> \<open>an extractor for the examples: it finds nothing in files named \<open>x_10-K.txt\<close> and
      raises on files named \<open>y_10-K.txt\<close>\<close>
  "flaky p =
     (if path_name p = ''x_10-K.txt'' then Falsy
      else if path_name p = ''y_10-K.txt'' then Raised ''boom''
      else Extracted)"

definition example_run :: env where
  \<comment> \<open>a directory with the three archives and three loose files, read with the parser and
      the extractor of the examples and the selection engine of the specification\<close>
  "example_run =
     example_env (three_archives_dir @ [''/in/x_10-K.txt'', ''/in/y_10-K.txt'', ''/in/z_10-K.txt''])
       three_archives own_filer (fm_select (\<lambda>p. Archive)) flaky"

definition pair_parser :: "path \<Rightarrow> metadata" where
  \<comment> \<open>a parser for the examples: every file is of filer \<open>0000012345\<close> and of 2020, a 10-K when
      its name says so and a 10-Q otherwise\<close>
  "pair_parser p =
     (Some ''0000012345'', Some 2020,
      Some (if is_10k (path_name p) then ''10-K'' else ''10-Q''))"

definition annual_and_quarterly :: env where
  \<comment> \<open>a directory with a quarterly and an annual filing of one filer and year, loose\<close>
  "annual_and_quarterly =
     example_env [''/in/edgar_data_12345_10-Q.txt'', ''/in/edgar_data_12345_10-K.txt'']
       three_archives pair_parser (fm_select (\<lambda>p. Loose)) (\<lambda>p. Extracted)"

definition quarterly_only :: env where
  \<comment> \<open>a directory with one quarterly filing of filer 123, loose\<close>
  "quarterly_only =
     example_env [''/in/edgar_data_123_10-Q.txt'']
       three_archives pair_parser (fm_select (\<lambda>p. Loose)) (\<lambda>p. Extracted)"




definition cand :: "path \<Rightarrow> string \<Rightarrow> candidate" where
  \<comment> \<open>a loose candidate of filer \<open>0000012345\<close> and year 2020, with the given form type\<close>
  "cand p t =
     \<lparr>cand_path = p, filer_id = Some ''0000012345'', fiscal_year = Some 2020,
      form_type = Some t, origin = Loose\<rparr>"

definition mixed_group :: "candidate list" where
  \<comment> \<open>a quarterly filing, an annual one, a current report and a second annual one, of one
      filer and year, in discovery order\<close>
  "mixed_group =
     [cand ''/in/q.txt'' ''10-Q'', cand ''/in/k1.txt'' ''10-K'',
      cand ''/in/o.txt'' ''8-K'', cand ''/in/k2.txt'' ''10-K/A'']"

section \<open>Properties of the filer-id extraction\<close>

lemma startswith_iff: "startswith s p = (\<exists>r. s = p @ r)"
  by (induction s p rule: startswith.induct) auto

lemma re_search_None_iff:
  "(re_search m s = None) = (\<forall>i\<le>length s. m (drop i s) = None)"
proof (induction s)
  case Nil
  then show ?case by simp
next
  case (Cons c cs)
  show ?case
  proof (cases "m (c # cs)")
    case None
    have "(\<forall>i\<le>length (c # cs). m (drop i (c # cs)) = None) =
          (\<forall>i\<le>length cs. m (drop i cs) = None)"
    proof
      assume a: "\<forall>i\<le>length (c # cs). m (drop i (c # cs)) = None"
      show "\<forall>i\<le>length cs. m (drop i cs) = None"
      proof (intro allI impI)
        fix i assume "i \<le> length cs"
        then have "m (drop (Suc i) (c # cs)) = None" using a by (metis Suc_le_mono length_Cons)
        then show "m (drop i cs) = None" by simp
      qed
    next
      assume a: "\<forall>i\<le>length cs. m (drop i cs) = None"
      show "\<forall>i\<le>length (c # cs). m (drop i (c # cs)) = None"
      proof (intro allI impI)
        fix i assume "i \<le> length (c # cs)"
        then show "m (drop i (c # cs)) = None"
          using a None by (cases i) auto
      qed
    qed
    with None Cons show ?thesis by simp
  next
    case (Some g)
    then have "\<not> (\<forall>i\<le>length (c # cs). m (drop i (c # cs)) = None)"
      by (auto intro: exI [of _ 0])
    with Some show ?thesis by simp
  qed
qed

lemma re_search_Some_leftmost:
  "re_search m s = Some g \<Longrightarrow>
     \<exists>i\<le>length s. m (drop i s) = Some g \<and> (\<forall>j<i. m (drop j s) = None)"
proof (induction s)
  case Nil
  then show ?case by simp
next
  case (Cons c cs)
  show ?case
  proof (cases "m (c # cs)")
    case None
    with Cons.prems have "re_search m cs = Some g" by simp
    from Cons.IH [OF this] obtain i where i: "i \<le> length cs" "m (drop i cs) = Some g"
      "\<forall>j<i. m (drop j cs) = None" by blast
    have "\<forall>j<Suc i. m (drop j (c # cs)) = None"
    proof (intro allI impI)
      fix j assume "j < Suc i"
      then show "m (drop j (c # cs)) = None" using None i(3) by (cases j) auto
    qed
    with i(1,2) show ?thesis by (intro exI [of _ "Suc i"]) simp
  next
    case (Some h)
    with Cons.prems have "h = g" by simp
    with Some show ?thesis by (intro exI [of _ 0]) simp
  qed
qed

lemma digits_upto_props:
  "length (digits_upto n s) \<le> n" "list_all is_digit (digits_upto n s)"
  by (auto simp: digits_upto_def list_all_iff dest: in_set_takeD set_takeWhileD)

lemma digits_upto_split:
  "\<exists>rest. s = digits_upto n s @ rest \<and>
     (length (digits_upto n s) = n \<or> rest = [] \<or> \<not> is_digit (hd rest))"
proof (cases "n \<le> length (takeWhile is_digit s)")
  case True
  have "s = take n (takeWhile is_digit s) @ (drop n (takeWhile is_digit s) @ dropWhile is_digit s)"
    by (metis append_assoc append_take_drop_id takeWhile_dropWhile_id)
  with True show ?thesis by (auto simp: digits_upto_def intro!: exI)
next
  case False
  then have "digits_upto n s = takeWhile is_digit s" by (simp add: digits_upto_def)
  moreover have "dropWhile is_digit s = [] \<or> \<not> is_digit (hd (dropWhile is_digit s))"
    by (metis hd_dropWhile)
  ultimately show ?thesis
    by (metis takeWhile_dropWhile_id)
qed

lemma digits_upto_unique:
  assumes "s = g @ rest" "list_all is_digit g" "length g \<le> n"
    "length g = n \<or> rest = [] \<or> \<not> is_digit (hd rest)"
  shows "digits_upto n s = g"
proof -
  have tw: "takeWhile is_digit s = g @ takeWhile is_digit rest"
    using assms(1,2) by (simp add: takeWhile_append2 list_all_iff)
  show ?thesis
  proof (cases "length g = n")
    case True
    then show ?thesis by (simp add: digits_upto_def tw)
  next
    case False
    with assms(4) have "takeWhile is_digit rest = []"
      by (cases rest) auto
    with assms(3) show ?thesis by (simp add: digits_upto_def tw)
  qed
qed

lemma match_digits_Some_iff:
  "(match_digits t = Some g) =
     (\<exists>rest. t = g @ rest \<and> 4 \<le> length g \<and> length g \<le> 10 \<and> list_all is_digit g \<and>
        (length g = 10 \<or> rest = [] \<or> \<not> is_digit (hd rest)))"
proof
  assume "match_digits t = Some g"
  then have g: "g = digits_upto 10 t" "4 \<le> length g"
    by (auto simp: match_digits_def Let_def split: if_splits)
  from digits_upto_split [of t 10] digits_upto_props [of 10 t] g
  show "\<exists>rest. t = g @ rest \<and> 4 \<le> length g \<and> length g \<le> 10 \<and> list_all is_digit g \<and>
        (length g = 10 \<or> rest = [] \<or> \<not> is_digit (hd rest))" by auto
next
  assume "\<exists>rest. t = g @ rest \<and> 4 \<le> length g \<and> length g \<le> 10 \<and> list_all is_digit g \<and>
        (length g = 10 \<or> rest = [] \<or> \<not> is_digit (hd rest))"
  then obtain rest where r: "t = g @ rest" "4 \<le> length g" "length g \<le> 10" "list_all is_digit g"
    "length g = 10 \<or> rest = [] \<or> \<not> is_digit (hd rest)" by blast
  then have "digits_upto 10 t = g" by (intro digits_upto_unique) auto
  with r(2) show "match_digits t = Some g" by (simp add: match_digits_def)
qed

lemma match_labeled_Some_iff:
  "(match_labeled t = Some g) =
     (\<exists>rest. t = ''edgar_data_'' @ g @ rest \<and> 1 \<le> length g \<and> length g \<le> 10 \<and>
        list_all is_digit g \<and> (length g = 10 \<or> rest = [] \<or> \<not> is_digit (hd rest)))"
proof
  assume a: "match_labeled t = Some g"
  then obtain u where u: "t = ''edgar_data_'' @ u"
    by (auto simp: match_labeled_def startswith_iff split: if_splits)
  with a have g: "g = digits_upto 10 u" "1 \<le> length g"
    by (auto simp: match_labeled_def Let_def split: if_splits)
  from digits_upto_split [of u 10] digits_upto_props [of 10 u] g u
  show "\<exists>rest. t = ''edgar_data_'' @ g @ rest \<and> 1 \<le> length g \<and> length g \<le> 10 \<and>
        list_all is_digit g \<and> (length g = 10 \<or> rest = [] \<or> \<not> is_digit (hd rest))" by auto
next
  assume "\<exists>rest. t = ''edgar_data_'' @ g @ rest \<and> 1 \<le> length g \<and> length g \<le> 10 \<and>
        list_all is_digit g \<and> (length g = 10 \<or> rest = [] \<or> \<not> is_digit (hd rest))"
  then obtain rest where r: "t = ''edgar_data_'' @ g @ rest" "1 \<le> length g" "length g \<le> 10"
    "list_all is_digit g" "length g = 10 \<or> rest = [] \<or> \<not> is_digit (hd rest)" by blast
  then have "digits_upto 10 (g @ rest) = g" by (intro digits_upto_unique) auto
  moreover have "startswith t ''edgar_data_''" using r(1) by (simp add: startswith_iff)
  moreover have "drop 11 t = g @ rest" using r(1) by simp
  ultimately show "match_labeled t = Some g" using r(2) by (simp add: match_labeled_def)
qed

lemma zfill_digits:
  assumes "list_all is_digit g" "length g \<le> w"
  shows "zfill w g = replicate (w - length g) CHR ''0'' @ g"
proof (cases g)
  case Nil
  then show ?thesis by (simp add: zfill_def)
next
  case (Cons c r)
  with assms(1) have "is_digit c" by simp
  then have "c \<noteq> CHR ''+''" "c \<noteq> CHR ''-''" by (auto simp: is_digit_def)
  with Cons assms(2) show ?thesis by (auto simp: zfill_def)
qed

lemma zfill_digits_props:
  assumes "list_all is_digit g" "length g \<le> w"
  shows "length (zfill w g) = w" "list_all is_digit (zfill w g)"
proof -
  have z: "is_digit CHR ''0''" by (simp add: is_digit_def)
  show "length (zfill w g) = w" using assms by (simp add: zfill_digits)
  show "list_all is_digit (zfill w g)"
    using assms z by (auto simp: zfill_digits list_all_iff)
qed

lemma re_search_leftmost:
  assumes "i \<le> length s" "m (drop i s) = Some g" "\<forall>j<i. m (drop j s) = None"
  shows "re_search m s = Some g"
proof (cases "re_search m s")
  case None
  with assms(1,2) show ?thesis by (simp add: re_search_None_iff)
next
  case (Some h)
  from re_search_Some_leftmost [OF this] obtain k where
    k: "k \<le> length s" "m (drop k s) = Some h" "\<forall>j<k. m (drop j s) = None" by blast
  have "k = i"
  proof (rule ccontr)
    assume "k \<noteq> i"
    then consider "k < i" | "i < k" by linarith
    then show False
    proof cases
      case 1 with assms(3) k(2) show False by simp
    next
      case 2 with k(3) assms(2) show False by simp
    qed
  qed
  with k(2) assms(2) Some show ?thesis by simp
qed

lemma extract_cik_from_name_shape:
  assumes "extract_cik_from_name s = Some r"
  shows "length r = 10 \<and> list_all is_digit r"
proof -
  from assms obtain g where g: "r = zfill 10 g"
    and "re_search match_labeled s = Some g \<or> re_search match_digits s = Some g"
    by (auto simp: extract_cik_from_name_def split: option.splits)
  then obtain t where "match_labeled t = Some g \<or> match_digits t = Some g"
    by (meson re_search_Some_leftmost)
  then have "list_all is_digit g \<and> length g \<le> 10"
    by (auto simp: match_labeled_Some_iff match_digits_Some_iff)
  with g show ?thesis by (simp add: zfill_digits_props)
qed

text \<open>
  Claim C5. Filer-id extraction searches first for the labelled pattern \<open>edgar_data_\<close>
  followed by 1 to 10 digits (the leftmost position where it matches, the longest run of at
  most ten digits there); only when the label matches nowhere does it fall back to the
  leftmost run of 4 to 10 digits; when neither matches the result is absent; and every
  result is zero-padded to exactly ten digits.
\<close>

theorem extract_cik_from_name_precedence:
  "(\<forall>i g. i \<le> length s \<and> match_labeled (drop i s) = Some g \<and>
          (\<forall>j<i. match_labeled (drop j s) = None)
       \<longrightarrow> extract_cik_from_name s = Some (zfill 10 g)) \<and>
   ((\<forall>i\<le>length s. match_labeled (drop i s) = None) \<longrightarrow>
      (\<forall>i g. i \<le> length s \<and> match_digits (drop i s) = Some g \<and>
            (\<forall>j<i. match_digits (drop j s) = None)
         \<longrightarrow> extract_cik_from_name s = Some (zfill 10 g))) \<and>
   ((\<forall>i\<le>length s. match_labeled (drop i s) = None) \<and>
    (\<forall>i\<le>length s. match_digits (drop i s) = None)
       \<longrightarrow> extract_cik_from_name s = None) \<and>
   (\<forall>r. extract_cik_from_name s = Some r \<longrightarrow> length r = 10 \<and> list_all is_digit r) \<and>
   (\<forall>t g. (match_labeled t = Some g) =
      (\<exists>rest. t = ''edgar_data_'' @ g @ rest \<and> 1 \<le> length g \<and> length g \<le> 10 \<and>
         list_all is_digit g \<and> (length g = 10 \<or> rest = [] \<or> \<not> is_digit (hd rest)))) \<and>
   (\<forall>t g. (match_digits t = Some g) =
      (\<exists>rest. t = g @ rest \<and> 4 \<le> length g \<and> length g \<le> 10 \<and>
         list_all is_digit g \<and> (length g = 10 \<or> rest = [] \<or> \<not> is_digit (hd rest))))"
proof (intro conjI allI impI)
  fix i g
  assume "i \<le> length s \<and> match_labeled (drop i s) = Some g \<and>
          (\<forall>j<i. match_labeled (drop j s) = None)"
  then have "re_search match_labeled s = Some g" by (intro re_search_leftmost [of i]) auto
  then show "extract_cik_from_name s = Some (zfill 10 g)"
    by (simp add: extract_cik_from_name_def)
next
  fix i g
  assume "\<forall>i\<le>length s. match_labeled (drop i s) = None"
  then have n: "re_search match_labeled s = None" by (simp add: re_search_None_iff)
  assume "i \<le> length s \<and> match_digits (drop i s) = Some g \<and>
          (\<forall>j<i. match_digits (drop j s) = None)"
  then have "re_search match_digits s = Some g" by (intro re_search_leftmost [of i]) auto
  with n show "extract_cik_from_name s = Some (zfill 10 g)"
    by (simp add: extract_cik_from_name_def)
next
  assume "(\<forall>i\<le>length s. match_labeled (drop i s) = None) \<and>
          (\<forall>i\<le>length s. match_digits (drop i s) = None)"
  then have "re_search match_labeled s = None" "re_search match_digits s = None"
    by (simp_all add: re_search_None_iff)
  then show "extract_cik_from_name s = None" by (simp add: extract_cik_from_name_def)
next
  fix r assume "extract_cik_from_name s = Some r"
  then show "length r = 10" "list_all is_digit r"
    using extract_cik_from_name_shape by blast+
next
  fix t g
  show "(match_labeled t = Some g) =
      (\<exists>rest. t = ''edgar_data_'' @ g @ rest \<and> 1 \<le> length g \<and> length g \<le> 10 \<and>
         list_all is_digit g \<and> (length g = 10 \<or> rest = [] \<or> \<not> is_digit (hd rest)))"
    by (rule match_labeled_Some_iff)
next
  fix t g
  show "(match_digits t = Some g) =
      (\<exists>rest. t = g @ rest \<and> 4 \<le> length g \<and> length g \<le> 10 \<and>
         list_all is_digit g \<and> (length g = 10 \<or> rest = [] \<or> \<not> is_digit (hd rest)))"
    by (rule match_digits_Some_iff)
qed

lemma ex_labeled: "match_labeled ''edgar_data_12345_10-K.txt'' = Some ''12345''"
  by (simp add: match_labeled_def digits_upto_def is_digit_def)

lemma ex_nolabel: "re_search match_labeled ''ab123cd45678'' = None"
  by (simp add: match_labeled_def)

lemma ex_bare: "match_digits (drop 7 ''ab123cd45678'') = Some ''45678''"
  "\<forall>j<7. match_digits (drop j ''ab123cd45678'') = None"
  by (simp_all add: match_digits_def digits_upto_def is_digit_def eval_nat_numeral less_Suc_eq)

text \<open>
  The three cases at concrete names: a labelled name, a name with only a bare run (the run
  \<open>123\<close> is too short, \<open>45678\<close> is taken), and the upper-case label, which the
  case-sensitive pattern does not match and which holds no run of four digits.
\<close>

theorem extract_cik_from_name_precedence_witness:
  "extract_cik_from_name ''edgar_data_12345_10-K.txt'' = Some ''0000012345'' \<and>
   extract_cik_from_name ''ab123cd45678'' = Some ''0000045678'' \<and>
   extract_cik_from_name ''EDGAR_DATA_55_10-K.TXT'' = None \<and>
   length ''0000012345'' = 10 \<and> list_all is_digit ''0000012345''"
proof -
  let ?a = "''edgar_data_12345_10-K.txt''" and ?b = "''ab123cd45678''"
  and ?c = "''EDGAR_DATA_55_10-K.TXT''"
  note A = extract_cik_from_name_precedence [of ?a]
  note B = extract_cik_from_name_precedence [of ?b]
  note C = extract_cik_from_name_precedence [of ?c]
  have z: "zfill 10 ''12345'' = ''0000012345''" "zfill 10 ''45678'' = ''0000045678''"
    by (simp_all add: zfill_def eval_nat_numeral)
  have "0 \<le> length ?a \<and> match_labeled (drop 0 ?a) = Some ''12345'' \<and>
        (\<forall>j<0. match_labeled (drop j ?a) = None)"
    using ex_labeled by simp
  from A [THEN conjunct1, THEN spec, THEN spec, THEN mp, OF this] z
  have a: "extract_cik_from_name ?a = Some ''0000012345''" by simp
  have nb: "\<forall>i\<le>length ?b. match_labeled (drop i ?b) = None"
    using ex_nolabel by (simp only: re_search_None_iff)
  have "7 \<le> length ?b \<and> match_digits (drop 7 ?b) = Some ''45678'' \<and>
        (\<forall>j<7. match_digits (drop j ?b) = None)"
    using ex_bare by simp
  from B [THEN conjunct2, THEN conjunct1, THEN mp, OF nb, THEN spec, THEN spec, THEN mp, OF this] z
  have b: "extract_cik_from_name ?b = Some ''0000045678''" by simp
  have "re_search match_labeled ?c = None" "re_search match_digits ?c = None"
    by (simp_all add: match_labeled_def match_digits_def digits_upto_def is_digit_def)
  then have "(\<forall>i\<le>length ?c. match_labeled (drop i ?c) = None) \<and>
     (\<forall>i\<le>length ?c. match_digits (drop i ?c) = None)"
    by (simp only: re_search_None_iff)
  from C [THEN conjunct2, THEN conjunct2, THEN conjunct1, THEN mp, OF this]
  have c: "extract_cik_from_name ?c = None" .
  from A [THEN conjunct2, THEN conjunct2, THEN conjunct2, THEN conjunct1, THEN spec, THEN mp, OF a]
  have "length ''0000012345'' = 10 \<and> list_all is_digit ''0000012345''" .
  with a b c show ?thesis by (simp only: simp_thms)
qed

section \<open>Removal of duplicates\<close>

lemma set_fromkeys [simp]: "set (fromkeys xs) = set xs"
  by (induction xs rule: fromkeys.induct) auto

lemma distinct_fromkeys [simp]: "distinct (fromkeys xs)"
  by (induction xs rule: fromkeys.induct) auto

lemma fromkeys_distinct_id: "distinct xs \<Longrightarrow> fromkeys xs = xs"
proof (induction xs)
  case Nil
  then show ?case by simp
next
  case (Cons x xs)
  then have "filter (\<lambda>y. y \<noteq> x) xs = xs" by (auto intro: filter_True)
  with Cons show ?case by simp
qed

section \<open>Properties of \<open>process_zip_file\<close>, \<open>process_directory\<close> and \<open>process_mixed_directory\<close>\<close>

lemma directory_loop_zip_stats:
  "zip_stats (directory_loop e flt zs ov) = zip_stats ov @ map (\<lambda>z. process_zip_file e z flt) zs"
  by (induction zs arbitrary: ov) (simp_all add: Let_def)

lemma directory_loop_total_zips:
  "total_zips (directory_loop e flt zs ov) = total_zips ov"
  by (induction zs arbitrary: ov) (simp_all add: Let_def)

lemma directory_loop_total_files:
  "total_files (directory_loop e flt zs ov) =
     total_files ov + sum_list (map (\<lambda>z. total_files (process_zip_file e z flt)) zs)"
  by (induction zs arbitrary: ov) (simp_all add: Let_def)

lemma directory_loop_processed:
  "processed (directory_loop e flt zs ov) =
     processed ov + sum_list (map (\<lambda>z. processed (process_zip_file e z flt)) zs)"
  by (induction zs arbitrary: ov) (simp_all add: Let_def)

lemma directory_loop_failed:
  "failed (directory_loop e flt zs ov) =
     failed ov + sum_list (map (\<lambda>z. failed (process_zip_file e z flt)) zs)"
  by (induction zs arbitrary: ov) (simp_all add: Let_def)

lemma zip_loop_processed:
  "processed (zip_loop e z flt fs st) =
     processed st + length [f \<leftarrow> fs. \<not> zip_skips flt (parse_filename_metadata e f) \<and>
                                 extract_member e z f = Extracted]"
  by (induction fs arbitrary: st) (auto split: outcome.splits)

lemma zip_loop_failed:
  "failed (zip_loop e z flt fs st) =
     failed st + length [f \<leftarrow> fs. \<not> zip_skips flt (parse_filename_metadata e f) \<and>
                              extract_member e z f \<noteq> Extracted]"
  by (induction fs arbitrary: st) (auto split: outcome.splits)

lemma zip_loop_errors:
  "errors (zip_loop e z flt fs st) =
     errors st @ map (\<lambda>f. (f, case extract_member e z f of Raised msg \<Rightarrow> msg
                                  | _ \<Rightarrow> ''Extraction failed''))
       [f \<leftarrow> fs. \<not> zip_skips flt (parse_filename_metadata e f) \<and>
                  extract_member e z f \<noteq> Extracted]"
  by (induction fs arbitrary: st) (auto split: outcome.splits)

lemma zip_loop_frame:
  "total_files (zip_loop e z flt fs st) = total_files st"
  "zip_file (zip_loop e z flt fs st) = zip_file st"
  by (induction fs arbitrary: st) (auto split: outcome.splits)

lemma count_simps:
  "combined (count_processed b st) = (combined st)\<lparr>processed := processed (combined st) + 1\<rparr>"
  "mixed_errors (count_processed b st) = mixed_errors st"
  "combined (count_failed b en st) = (combined st)\<lparr>failed := failed (combined st) + 1\<rparr>"
  "mixed_errors (count_failed b en st) = mixed_errors st @ [en]"
  by (simp_all add: count_processed_def count_failed_def Let_def)

lemma extract_selected_processed:
  "processed (combined (extract_selected e r zs fps st)) =
     processed (combined st) + length [fp \<leftarrow> fps. extract_from_file e r fp = Extracted]"
  by (induction fps arbitrary: st) (auto simp: count_simps split: outcome.splits)

lemma extract_selected_failed:
  "failed (combined (extract_selected e r zs fps st)) =
     failed (combined st) + length [fp \<leftarrow> fps. extract_from_file e r fp \<noteq> Extracted]"
  by (induction fps arbitrary: st) (auto simp: count_simps split: outcome.splits)

lemma extract_selected_errors:
  "mixed_errors (extract_selected e r zs fps st) =
     mixed_errors st @ map (\<lambda>fp. case extract_from_file e r fp of
                                   Raised msg \<Rightarrow> fp @ '': '' @ msg | _ \<Rightarrow> fp)
       [fp \<leftarrow> fps. extract_from_file e r fp \<noteq> Extracted]"
  by (induction fps arbitrary: st) (auto simp: count_simps split: outcome.splits)

lemma extract_selected_skipped:
  "skipped_10q (combined (extract_selected e r zs fps st)) = skipped_10q (combined st)"
  "total_files (combined (extract_selected e r zs fps st)) = total_files (combined st)"
  by (induction fps arbitrary: st) (auto simp: count_simps split: outcome.splits)

lemma count_skipped_frame:
  "processed (combined (count_skipped e fps st)) = processed (combined st)"
  "failed (combined (count_skipped e fps st)) = failed (combined st)"
  "total_files (combined (count_skipped e fps st)) = total_files (combined st)"
  "mixed_errors (count_skipped e fps st) = mixed_errors st"
  "zip_results (count_skipped e fps st) = zip_results st"
  "text_results (count_skipped e fps st) = text_results st"
  by (induction fps arbitrary: st) (auto split: prod.splits)

lemma count_skipped_count:
  "skipped_10q (combined (count_skipped e fps st)) =
     skipped_10q (combined st) +
     length [fp \<leftarrow> fps. starts_10q (snd (snd (parse_filename_metadata e fp)))]"
  by (induction fps arbitrary: st) (auto split: prod.splits)



lemma process_mixed_directory_errors:
  "mixed_errors (process_mixed_directory e r flt) =
     map (\<lambda>fp. case extract_from_file e r fp of Raised msg \<Rightarrow> fp @ '': '' @ msg | _ \<Rightarrow> fp)
       [fp \<leftarrow> fst (mixed_selection e flt). extract_from_file e r fp \<noteq> Extracted]"
  by (simp add: process_mixed_directory_def Let_def count_skipped_frame extract_selected_errors
      split: prod.splits)

lemma process_mixed_directory_failed:
  "failed (combined (process_mixed_directory e r flt)) =
     length [fp \<leftarrow> fst (mixed_selection e flt). extract_from_file e r fp \<noteq> Extracted]"
  by (simp add: process_mixed_directory_def Let_def count_skipped_frame extract_selected_failed
      split: prod.splits)

lemma process_mixed_directory_processed:
  "processed (combined (process_mixed_directory e r flt)) =
     length [fp \<leftarrow> fst (mixed_selection e flt). extract_from_file e r fp = Extracted]"
  by (simp add: process_mixed_directory_def Let_def count_skipped_frame extract_selected_processed
      split: prod.splits)

lemma process_mixed_directory_skipped:
  "skipped_10q (combined (process_mixed_directory e r flt)) =
     length [fp \<leftarrow> snd (mixed_selection e flt).
               starts_10q (snd (snd (parse_filename_metadata e fp)))]"
  by (simp add: process_mixed_directory_def Let_def count_skipped_count extract_selected_skipped
      split: prod.splits)

lemma process_mixed_directory_totals:
  "total_files (combined (process_mixed_directory e r flt)) =
     length (fst (mixed_candidates e flt)) + length (snd (mixed_candidates e flt))"
  by (simp add: process_mixed_directory_def Let_def count_skipped_frame extract_selected_skipped
      split: prod.splits)

lemma length_filter_split:
  "length [x \<leftarrow> xs. P x] + length [x \<leftarrow> xs. \<not> P x] = length xs"
  by (induction xs) auto

lemma process_zip_file_Members:
  assumes "zip_open e z = Members ms"
  shows "process_zip_file e z flt =
     zip_loop e z flt
       (case flt of None \<Rightarrow> filter (has_valid_ext e) ms
        | Some F \<Rightarrow> filter (name_filter F) (filter (has_valid_ext e) ms))
       \<lparr>total_files = length (case flt of None \<Rightarrow> filter (has_valid_ext e) ms
                         | Some F \<Rightarrow> filter (name_filter F) (filter (has_valid_ext e) ms)),
        processed = 0, failed = 0, zip_file = z, errors = []\<rparr>"
  using assms by (simp add: process_zip_file_def Let_def split: option.splits)


section \<open>Properties of the identifier set loaders\<close>

text \<open>
  What a row with a first field adds in \<open>cik_filter.load_cik_list\<close>: nothing when the field
  holds no digit, else its digits, zero-padded to ten characters (and left as they are when
  there are more than ten).
\<close>

lemma cik_filter_row_spec:
  "cik_filter_row (field # rest) =
     (if filter is_digit field = [] then None else Some (zfill 10 (filter is_digit field)))"
proof -
  have sp: "\<And>c. is_digit c \<Longrightarrow> \<not> is_space c" by (auto simp: is_digit_def is_space_def)
  have "filter is_digit (dropWhile is_space s) = filter is_digit s" for s
    by (induction s) (auto simp: sp)
  moreover have "filter is_digit (rev (dropWhile is_space (rev t))) = filter is_digit t" for t
  proof -
    have "filter is_digit (dropWhile is_space u) = filter is_digit u" for u
      by (induction u) (auto simp: sp)
    then have "filter is_digit (rev (dropWhile is_space (rev t))) = rev (filter is_digit (rev t))"
      by (simp add: rev_filter [symmetric])
    then show ?thesis by (simp add: rev_filter)
  qed
  ultimately have f: "filter is_digit (strip field) = filter is_digit field"
    by (simp add: strip_def)
  have "strip field = [] \<Longrightarrow> filter is_digit field = []"
    using f by (metis filter.simps(1))
  then show ?thesis by (auto simp: cik_filter_row_def Let_def f)
qed

section \<open>The identifier filter of \<open>process_mixed_directory\<close>\<close>

lemma mixed_candidates_match:
  assumes "fp \<in> set (fst (mixed_candidates e flt)) \<union> set (snd (mixed_candidates e flt))"
  shows "match flt fp"
  using assms by (cases flt) (auto simp: mixed_candidates_def Let_def match_def)

lemma register_subset:
  "fp \<in> fst ` set (register e flt fps) \<Longrightarrow>
     fp \<in> set fps \<and> \<not> mixed_skips flt (parse_filename_metadata e fp)"
proof (induction fps)
  case Nil
  then show ?case by simp
next
  case (Cons p ps)
  then show ?case
    by (auto simp: Let_def add_filing_args_def split: if_splits option.splits prod.splits)
qed

lemma starts_10q_not_10k: "starts_10q ft \<Longrightarrow> truthy ft \<and> \<not> starts_10k ft"
proof (cases ft)
  case None
  then show "starts_10q ft \<Longrightarrow> ?thesis" by (simp add: starts_10q_def)
next
  case (Some t)
  assume "starts_10q ft"
  with Some obtain r where "t = ''10-Q'' @ r" by (auto simp: starts_10q_def startswith_iff)
  with Some show ?thesis by (simp add: truthy_def starts_10k_def)
qed


lemma register_no_filter:
  "map fst (register e None fps) =
     [fp \<leftarrow> fps. add_filing_args fp (parse_filename_metadata e fp) \<noteq> None]"
proof (induction fps)
  case Nil
  then show ?case by simp
next
  case (Cons p ps)
  then show ?case
    by (cases "add_filing_args p (parse_filename_metadata e p)")
       (auto simp: mixed_skips_def Let_def add_filing_args_def
             split: option.splits prod.splits if_splits)
qed

section \<open>The registry invariant and the selection\<close>

lemma insert_group_keys:
  "map fst (insert_group k c reg) =
     (if k \<in> fst ` set reg then map fst reg else map fst reg @ [k])"
  by (induction reg) force+

lemma insert_group_entries:
  "(k', g') \<in> set (insert_group k c reg) \<Longrightarrow>
     (k', g') \<in> set reg \<or>
     (k' = k \<and> ((\<exists>g. (k, g) \<in> set reg \<and> g' = g @ [c]) \<or> g' = [c]))"
  by (induction reg) (auto split: if_splits)

lemma registry_inv_insert_group:
  assumes "registry_inv reg" "filer_id c = Some f" "fiscal_year c = Some y"
  shows "registry_inv (insert_group (f, y) c reg)"
proof -
  have d: "distinct (map fst (insert_group (f, y) c reg))"
    using assms(1) by (auto simp: insert_group_keys registry_inv_def)
  have "g' \<noteq> [] \<and> (\<forall>d \<in> set g'. filer_id d = Some (fst k') \<and> fiscal_year d = Some (snd k'))"
    if "(k', g') \<in> set (insert_group (f, y) c reg)" for k' g'
    using insert_group_entries [OF that] assms
    by (fastforce simp: registry_inv_def)
  with d show ?thesis by (auto simp: registry_inv_def)
qed

lemma registry_inv_add: "registry_inv reg \<Longrightarrow> registry_inv (registry_add c reg)"
  by (auto simp: registry_add_def registry_inv_insert_group split: option.splits)

lemma registry_inv_foldl:
  "registry_inv reg \<Longrightarrow> registry_inv (foldl (\<lambda>reg c. registry_add c reg) reg cs)"
  by (induction cs arbitrary: reg) (simp_all add: registry_inv_add)

lemma registry_inv_registry_of: "registry_inv (registry_of cs)"
proof -
  have "registry_inv []" by (simp add: registry_inv_def)
  then show ?thesis unfolding registry_of_def by (rule registry_inv_foldl)
qed

lemma registry_inv_same_group:
  assumes "registry_inv reg" "(k1, g1) \<in> set reg" "(k2, g2) \<in> set reg"
    "c \<in> set g1" "c \<in> set g2"
  shows "g1 = g2"
proof -
  from assms have "filer_id c = Some (fst k1)" "fiscal_year c = Some (snd k1)"
    "filer_id c = Some (fst k2)" "fiscal_year c = Some (snd k2)"
    by (auto simp: registry_inv_def)
  then have "k1 = k2" by (simp add: prod_eq_iff)
  with assms(1-3) show ?thesis
    by (auto simp: registry_inv_def dest: eq_key_imp_eq_value)
qed

lemma choose_candidate_in: "choose_candidate g = Some c \<Longrightarrow> c \<in> set g"
proof -
  have f: "a \<in> set g" if "filter P g = a # r" for P a r
  proof -
    have "a \<in> set (filter P g)" using that by simp
    then show ?thesis by simp
  qed
  assume "choose_candidate g = Some c"
  then show ?thesis
    by (auto simp: choose_candidate_def split: list.splits dest: f)
qed

lemma choose_candidate_nonempty: "g \<noteq> [] \<Longrightarrow> \<exists>c. choose_candidate g = Some c"
  by (auto simp: choose_candidate_def split: list.splits)

lemma choose_candidate_annual:
  assumes "\<exists>a \<in> set g. bucket_of (form_type a) = Annual"
  shows "choose_candidate g = Some (hd [a \<leftarrow> g. bucket_of (form_type a) = Annual]) \<and>
         bucket_of (form_type (hd [a \<leftarrow> g. bucket_of (form_type a) = Annual])) = Annual"
proof -
  from assms have ne: "[a \<leftarrow> g. bucket_of (form_type a) = Annual] \<noteq> []"
    by (auto simp: filter_empty_conv)
  then obtain a r where ar: "[a \<leftarrow> g. bucket_of (form_type a) = Annual] = a # r"
    by (cases "[a \<leftarrow> g. bucket_of (form_type a) = Annual]") auto
  then have "a \<in> set [a \<leftarrow> g. bucket_of (form_type a) = Annual]" by simp
  then have "bucket_of (form_type a) = Annual" by simp
  with ar show ?thesis by (simp add: choose_candidate_def)
qed

lemma select_group_sets:
  "set (fst (select_group g)) \<union> set (snd (select_group g)) = set g"
  "set (fst (select_group g)) \<inter> set (snd (select_group g)) = {}"
proof -
  show "set (fst (select_group g)) \<union> set (snd (select_group g)) = set g"
  proof (cases g)
    case Nil
    then show ?thesis by (simp add: select_group_def choose_candidate_def)
  next
    case (Cons a r)
    then obtain c where c: "choose_candidate g = Some c"
      using choose_candidate_nonempty [of g] by auto
    from choose_candidate_in [OF c] c show ?thesis
      by (auto simp: select_group_def)
  qed
  show "set (fst (select_group g)) \<inter> set (snd (select_group g)) = {}"
    by (auto simp: select_group_def split: option.splits)
qed

lemma select_sets:
  "fst (select gs) = (\<Union>g \<in> set gs. set (fst (select_group g)))"
  "snd (select gs) = (\<Union>g \<in> set gs. set (snd (select_group g)))"
  by (simp_all add: select_def select_lists_def)

lemma registry_group_entry:
  "g \<in> set (registry_groups reg) \<Longrightarrow> \<exists>k. (k, g) \<in> set reg"
  by (force simp: registry_groups_def)

lemma select_process_of_group:
  assumes "registry_inv reg" "(k, g) \<in> set reg"
  shows "set g \<inter> fst (select (registry_groups reg)) = set (fst (select_group g))"
    and "set g \<inter> snd (select (registry_groups reg)) = set (snd (select_group g))"
proof -
  have g_in: "g \<in> set (registry_groups reg)"
    using assms(2) by (force simp: registry_groups_def)
  have sub: "set (fst (select_group h)) \<subseteq> set h" "set (snd (select_group h)) \<subseteq> set h" for h
    using select_group_sets(1) [of h] by auto
  show "set g \<inter> fst (select (registry_groups reg)) = set (fst (select_group g))"
  proof
    show "set g \<inter> fst (select (registry_groups reg)) \<subseteq> set (fst (select_group g))"
    proof
      fix c assume "c \<in> set g \<inter> fst (select (registry_groups reg))"
      then obtain h where h: "c \<in> set g" "h \<in> set (registry_groups reg)"
        "c \<in> set (fst (select_group h))" by (auto simp: select_sets)
      from h(2) obtain k' where "(k', h) \<in> set reg" by (auto dest: registry_group_entry)
      with assms h(1,3) sub(1) [of h] have "g = h"
        by (auto intro: registry_inv_same_group)
      with h(3) show "c \<in> set (fst (select_group g))" by simp
    qed
    show "set (fst (select_group g)) \<subseteq> set g \<inter> fst (select (registry_groups reg))"
      using g_in sub(1) [of g] by (auto simp: select_sets)
  qed
  show "set g \<inter> snd (select (registry_groups reg)) = set (snd (select_group g))"
  proof
    show "set g \<inter> snd (select (registry_groups reg)) \<subseteq> set (snd (select_group g))"
    proof
      fix c assume "c \<in> set g \<inter> snd (select (registry_groups reg))"
      then obtain h where h: "c \<in> set g" "h \<in> set (registry_groups reg)"
        "c \<in> set (snd (select_group h))" by (auto simp: select_sets)
      from h(2) obtain k' where "(k', h) \<in> set reg" by (auto dest: registry_group_entry)
      with assms h(1,3) sub(2) [of h] have "g = h"
        by (auto intro: registry_inv_same_group)
      with h(3) show "c \<in> set (snd (select_group g))" by simp
    qed
    show "set (snd (select_group g)) \<subseteq> set g \<inter> snd (select (registry_groups reg))"
      using g_in sub(2) [of g] by (auto simp: select_sets)
  qed
qed


lemma bucket_of_examples:
  "bucket_of (Some ''10-K'') = Annual" "bucket_of (Some ''10-Q'') = Quarterly"
  by (simp_all add: bucket_of_def upper_def upper_char_def)

lemma fm_select_pair:
  assumes "k \<noteq> q"
  shows "fm_select org [(k, c, y, ''10-K''), (q, c, y, ''10-Q'')] = ([k], [q])"
    and "fm_select org [(q, c, y, ''10-Q''), (k, c, y, ''10-K'')] = ([k], [q])"
  using assms
  by (simp_all add: fm_select_def registry_of_def registry_add_def registry_groups_def
      select_lists_def select_group_def choose_candidate_def bucket_of_examples Let_def)

lemma mixed_selection_eq:
  "mixed_selection e flt =
     (fromkeys (fst (select_filings_to_process e
         (register e flt (fst (mixed_candidates e flt) @ snd (mixed_candidates e flt))))),
      fromkeys (snd (select_filings_to_process e
         (register e flt (fst (mixed_candidates e flt) @ snd (mixed_candidates e flt))))))"
  by (simp add: mixed_selection_def split: prod.splits)

text \<open>
  Claim C10. The overall statistics of \<open>process_directory\<close> agree with the per-archive
  statistics: \<open>total_zips\<close> is the number of entries of \<open>zip_stats\<close>, and each of
  \<open>total_files\<close>, \<open>processed\<close> and \<open>failed\<close> is the sum of that field over the entries.
\<close>

theorem process_directory_totals:
  "total_zips (process_directory e cik_filter) = length (zip_stats (process_directory e cik_filter)) \<and>
   total_files (process_directory e cik_filter) =
     sum_list (map total_files (zip_stats (process_directory e cik_filter))) \<and>
   processed (process_directory e cik_filter) =
     sum_list (map processed (zip_stats (process_directory e cik_filter))) \<and>
   failed (process_directory e cik_filter) =
     sum_list (map failed (zip_stats (process_directory e cik_filter)))"
  by (simp add: process_directory_def Let_def directory_loop_zip_stats directory_loop_total_zips
      directory_loop_total_files directory_loop_processed directory_loop_failed comp_def)


text \<open>
  The three archives of the examples: one member with a recognised suffix, a corrupt
  archive, and two members of which both fail.
\<close>

theorem process_directory_totals_witness:
  "total_zips (process_directory example_run None) = 3 \<and>
   map total_files (zip_stats (process_directory example_run None)) = [1, 0, 2] \<and>
   total_files (process_directory example_run None) = 3 \<and>
   map failed (zip_stats (process_directory example_run None)) = [0, 0, 2] \<and>
   failed (process_directory example_run None) = 2"
proof -
  let ?r = "process_directory example_run None"
  note T = process_directory_totals [of example_run None]
  have m: "map total_files (zip_stats ?r) = [1, 0, 2]" "map failed (zip_stats ?r) = [0, 0, 2]"
    by code_simp+
  have "total_zips ?r = length (map total_files (zip_stats ?r))"
    using T by simp
  moreover have "total_files ?r = sum_list (map total_files (zip_stats ?r))"
    using T by simp
  moreover have "failed ?r = sum_list (map failed (zip_stats ?r))"
    using T by simp
  ultimately show ?thesis by (simp add: m)
qed

text \<open>
  Claim C9. For the candidates dispatched to the extractor, in \<open>process_mixed_directory\<close>
  (those of \<open>to_process\<close>) and in \<open>process_zip_file\<close> (the text files of the archive the
  loop does not pass over): every one whose extraction raises or returns a falsy result
  adds one to \<open>failed\<close> and appends one entry to the error list, in order, holding the
  file's path, and the message when one was raised; every other one adds one to
  \<open>processed\<close>; and the loop reaches every candidate, so that \<open>processed\<close> and \<open>failed\<close>
  together count all of them.
\<close>

theorem extraction_failures_recorded:
  "(let to_process = fst (mixed_selection e cik_filter);
        failing = [fp \<leftarrow> to_process. extract_from_file e resolve fp \<noteq> Extracted];
        stats = process_mixed_directory e resolve cik_filter
    in failed (combined stats) = length failing \<and>
       mixed_errors stats =
         map (\<lambda>fp. case extract_from_file e resolve fp of
                     Raised msg \<Rightarrow> fp @ '': '' @ msg | _ \<Rightarrow> fp) failing \<and>
       processed (combined stats) + failed (combined stats) = length to_process) \<and>
   (\<forall>ms. zip_open e z = Members ms \<longrightarrow>
      (let text_files = (case cik_filter of
                           None \<Rightarrow> filter (has_valid_ext e) ms
                         | Some F \<Rightarrow> filter (name_filter F) (filter (has_valid_ext e) ms));
           dispatched = [f \<leftarrow> text_files. \<not> zip_skips cik_filter (parse_filename_metadata e f)];
           failing = [f \<leftarrow> dispatched. extract_member e z f \<noteq> Extracted];
           stats = process_zip_file e z cik_filter
       in failed stats = length failing \<and>
          errors stats =
            map (\<lambda>f. (f, case extract_member e z f of
                           Raised msg \<Rightarrow> msg | _ \<Rightarrow> ''Extraction failed'')) failing \<and>
          processed stats + failed stats = length dispatched))"
proof (intro conjI allI impI)
  show "let to_process = fst (mixed_selection e cik_filter);
        failing = [fp \<leftarrow> to_process. extract_from_file e resolve fp \<noteq> Extracted];
        stats = process_mixed_directory e resolve cik_filter
    in failed (combined stats) = length failing \<and>
       mixed_errors stats =
         map (\<lambda>fp. case extract_from_file e resolve fp of
                     Raised msg \<Rightarrow> fp @ '': '' @ msg | _ \<Rightarrow> fp) failing \<and>
       processed (combined stats) + failed (combined stats) = length to_process"
    using length_filter_split [of "\<lambda>fp. extract_from_file e resolve fp = Extracted"
        "fst (mixed_selection e cik_filter)"]
    by (simp add: Let_def process_mixed_directory_errors process_mixed_directory_failed
        process_mixed_directory_processed)
next
  fix ms assume m: "zip_open e z = Members ms"
  let ?T = "case cik_filter of None \<Rightarrow> filter (has_valid_ext e) ms
            | Some F \<Rightarrow> filter (name_filter F) (filter (has_valid_ext e) ms)"
  let ?D = "[f \<leftarrow> ?T. \<not> zip_skips cik_filter (parse_filename_metadata e f)]"
  have "length [f \<leftarrow> ?D. extract_member e z f = Extracted] +
        length [f \<leftarrow> ?D. extract_member e z f \<noteq> Extracted] = length ?D"
    by (rule length_filter_split)
  then show "let text_files = ?T;
           dispatched = [f \<leftarrow> text_files. \<not> zip_skips cik_filter (parse_filename_metadata e f)];
           failing = [f \<leftarrow> dispatched. extract_member e z f \<noteq> Extracted];
           stats = process_zip_file e z cik_filter
       in failed stats = length failing \<and>
          errors stats =
            map (\<lambda>f. (f, case extract_member e z f of
                           Raised msg \<Rightarrow> msg | _ \<Rightarrow> ''Extraction failed'')) failing \<and>
          processed stats + failed stats = length dispatched"
    by (simp add: Let_def process_zip_file_Members [OF m] zip_loop_failed zip_loop_errors
        zip_loop_processed conj_commute)
qed

text \<open>
  The run of the examples: of the four selected files one returns nothing and one raises;
  of the two members of \<open>/in/c.zip\<close> one returns nothing and one raises.
\<close>

theorem extraction_failures_recorded_witness:
  "failed (combined (process_mixed_directory example_run True None)) = 2 \<and>
   mixed_errors (process_mixed_directory example_run True None) =
     [''/tmp/taa/x_10-K.txt'', ''/tmp/taaa/y_10-K.txt: boom''] \<and>
   processed (combined (process_mixed_directory example_run True None)) = 2 \<and>
   failed (process_zip_file example_run ''/in/c.zip'' None) = 2 \<and>
   errors (process_zip_file example_run ''/in/c.zip'' None) =
     [(''x_10-K.txt'', ''Extraction failed''), (''y_10-K.txt'', ''boom'')]"
proof -
  note T = extraction_failures_recorded [of example_run None True "''/in/c.zip''"]
  have sel: "fst (mixed_selection example_run None) =
     [''/tmp/ta/a_10-K.txt'', ''/tmp/taa/x_10-K.txt'', ''/tmp/taaa/y_10-K.txt'', ''/in/z_10-K.txt'']"
    by code_simp
  have out: "extract_from_file example_run True ''/tmp/ta/a_10-K.txt'' = Extracted"
    "extract_from_file example_run True ''/tmp/taa/x_10-K.txt'' = Falsy"
    "extract_from_file example_run True ''/tmp/taaa/y_10-K.txt'' = Raised ''boom''"
    "extract_from_file example_run True ''/in/z_10-K.txt'' = Extracted"
    by code_simp+
  have mixed: "failed (combined (process_mixed_directory example_run True None)) = 2 \<and>
   mixed_errors (process_mixed_directory example_run True None) =
     [''/tmp/taa/x_10-K.txt'', ''/tmp/taaa/y_10-K.txt: boom''] \<and>
   processed (combined (process_mixed_directory example_run True None)) = 2"
    using T [THEN conjunct1] by (simp add: Let_def sel out)
  have zo: "zip_open example_run ''/in/c.zip'' = Members [''x_10-K.txt'', ''y_10-K.txt'']"
    by code_simp
  have hv: "has_valid_ext example_run ''x_10-K.txt''" "has_valid_ext example_run ''y_10-K.txt''"
    by code_simp+
  have zout: "extract_member example_run ''/in/c.zip'' ''x_10-K.txt'' = Falsy"
    "extract_member example_run ''/in/c.zip'' ''y_10-K.txt'' = Raised ''boom''"
    by code_simp+
  have zip: "failed (process_zip_file example_run ''/in/c.zip'' None) = 2 \<and>
   errors (process_zip_file example_run ''/in/c.zip'' None) =
     [(''x_10-K.txt'', ''Extraction failed''), (''y_10-K.txt'', ''boom'')]"
    using T [THEN conjunct2, THEN spec, THEN mp, OF zo] by (simp add: Let_def zout hv zip_skips_def)
  from mixed zip show ?thesis by simp
qed

text \<open>
  Claim C8, at a directory with the valid archives \<open>/in/a.zip\<close> and \<open>/in/c.zip\<close> and the
  corrupt archive \<open>/in/bad.zip\<close>, whatever the parser and the selection do, when every
  extraction succeeds: \<open>process_zip_file\<close> records the corrupt archive as one error entry,
  and the discovery of \<open>process_mixed_directory\<close> still unpacks the members of the two
  valid archives, but the error list that \<open>process_mixed_directory\<close> returns is empty:
  there the failure to open an archive is logged and leaves no entry in the statistics.
\<close>

theorem corrupt_archive_not_in_mixed_errors:
  "errors (process_zip_file (example_env three_archives_dir three_archives parse sel (\<lambda>p. Extracted))
       ''/in/bad.zip'' cik_filter) = [(''/in/bad.zip'', ''Invalid ZIP file'')] \<and>
   fst (mixed_candidates (example_env three_archives_dir three_archives parse sel (\<lambda>p. Extracted))
       None) = [''/tmp/ta/a_10-K.txt'', ''/tmp/taa/x_10-K.txt'', ''/tmp/taaa/y_10-K.txt''] \<and>
   mixed_errors (process_mixed_directory
       (example_env three_archives_dir three_archives parse sel (\<lambda>p. Extracted))
       resolve cik_filter) = []"
proof (intro conjI)
  let ?e = "example_env three_archives_dir three_archives parse sel (\<lambda>p. Extracted)"
  show "errors (process_zip_file ?e ''/in/bad.zip'' cik_filter) =
          [(''/in/bad.zip'', ''Invalid ZIP file'')]"
    by (simp add: process_zip_file_def example_env_def three_archives_def)
  show "fst (mixed_candidates ?e None) =
          [''/tmp/ta/a_10-K.txt'', ''/tmp/taa/x_10-K.txt'', ''/tmp/taaa/y_10-K.txt'']"
    by (simp add: mixed_candidates_def example_env_def three_archives_def three_archives_dir_def
        has_valid_ext_def endswith_def path_name_def joinpath_def Let_def)
  have "extract_from_file ?e resolve = (\<lambda>p. Extracted)" by (simp add: example_env_def)
  then show "mixed_errors (process_mixed_directory ?e resolve cik_filter) = []"
    by (simp add: process_mixed_directory_errors)
qed

text \<open>
  Claim C6, at the table of the repository's test (a header row and two identifiers) and at a
  field with a hyphen: \<open>cik_filter.load_cik_list\<close> strips the non-digits and passes over the
  header row, which holds no digit, and maps \<open>123456\<close> and \<open>0000123456\<close> to the same
  element; \<open>cik_loader.load_cik_list\<close> pads the field as it is, so that the header row adds
  \<open>0000000cik\<close> and the hyphen stays.
\<close>

theorem cik_loader_keeps_non_digits:
  "cik_loader_load_cik_list (Some [[''cik'', ''ticker''], [''123456'', ''AAA''], [''789'', ''BBB'']]) =
     {''0000000cik'', ''0000123456'', ''0000000789''} \<and>
   cik_filter_load_cik_list (Some [[''cik'', ''ticker''], [''123456'', ''AAA''], [''789'', ''BBB'']]) =
     {''0000123456'', ''0000000789''} \<and>
   cik_loader_load_cik_list (Some [[''12-34'']]) = {''0000012-34''} \<and>
   cik_filter_load_cik_list (Some [[''12-34'']]) = {''0000001234''} \<and>
   cik_filter_load_cik_list (Some [[''123456''], [''0000123456'']]) = {''0000123456''}"
  by code_simp

text \<open>
  Claim C4. In \<open>process_mixed_directory\<close> with an identifier filter \<open>F\<close>, take a file whose
  name yields a filer id of \<open>F\<close> and which is quarterly: its name is not of the 10-K family,
  or the parser gives it a form type that starts with \<open>10-Q\<close>. No \<open>add_filing\<close> call is made
  for it, so that the selection never sees it, and it is not extracted by any selection that
  returns registered files only. When the name is not of the 10-K family it is already
  dropped from the candidate lists by \<open>_match\<close>, whose only other condition is the one on the
  identifier, which the file meets; and without a filter \<open>_match\<close> admits it.
\<close>

theorem quarterly_excluded_under_filter:
  assumes "in_filter F (extract_cik_from_name (path_name fp))"
    and "\<not> is_10k (path_name fp) \<or> starts_10q (snd (snd (parse_filename_metadata e fp)))"
  shows "fp \<notin> fst ` set (register e (Some F)
             (fst (mixed_candidates e (Some F)) @ snd (mixed_candidates e (Some F)))) \<and>
         (set (fst (select_filings_to_process e (register e (Some F)
                (fst (mixed_candidates e (Some F)) @ snd (mixed_candidates e (Some F))))))
            \<subseteq> fst ` set (register e (Some F)
                (fst (mixed_candidates e (Some F)) @ snd (mixed_candidates e (Some F))))
          \<longrightarrow> fp \<notin> set (fst (mixed_selection e (Some F)))) \<and>
         (\<not> is_10k (path_name fp) \<longrightarrow>
            \<not> match (Some F) fp \<and>
            fp \<notin> set (fst (mixed_candidates e (Some F))) \<and>
            fp \<notin> set (snd (mixed_candidates e (Some F)))) \<and>
         match (Some F) fp =
           (in_filter F (extract_cik_from_name (path_name fp)) \<and> is_10k (path_name fp)) \<and>
         match None fp"
proof -
  let ?zs = "fst (mixed_candidates e (Some F))" and ?ls = "snd (mixed_candidates e (Some F))"
  let ?log = "register e (Some F) (?zs @ ?ls)"
  have notreg: "fp \<notin> fst ` set ?log"
  proof
    assume "fp \<in> fst ` set ?log"
    from register_subset [OF this]
    have in_c: "fp \<in> set ?zs \<union> set ?ls"
      and ns: "\<not> mixed_skips (Some F) (parse_filename_metadata e fp)" by auto
    from mixed_candidates_match [OF in_c] have "is_10k (path_name fp)"
      by (simp add: match_def name_filter_def)
    with assms(2) have q: "starts_10q (snd (snd (parse_filename_metadata e fp)))" by simp
    from starts_10q_not_10k [OF q] ns show False
      by (cases "parse_filename_metadata e fp") (auto simp: mixed_skips_def)
  qed
  have sel: "set (fst (mixed_selection e (Some F))) = set (fst (select_filings_to_process e ?log))"
    by (simp add: mixed_selection_def split: prod.splits)
  have m: "match (Some F) fp =
           (in_filter F (extract_cik_from_name (path_name fp)) \<and> is_10k (path_name fp))"
    by (simp add: match_def name_filter_def)
  have nm: "\<not> is_10k (path_name fp) \<Longrightarrow> fp \<notin> set ?zs \<and> fp \<notin> set ?ls"
    using mixed_candidates_match [of fp e "Some F"] m by auto
  from notreg sel m nm show ?thesis by (auto simp: match_def)
qed

text \<open>
  The scenario of the specification: the filter holds \<open>0000000123\<close> and the only file is a
  quarterly filing of filer 123.
\<close>

theorem quarterly_excluded_under_filter_witness:
  "''/in/edgar_data_123_10-Q.txt'' \<notin> set (fst (mixed_selection quarterly_only (Some {''0000000123''}))) \<and>
   \<not> match (Some {''0000000123''}) ''/in/edgar_data_123_10-Q.txt'' \<and>
   match None ''/in/edgar_data_123_10-Q.txt'' \<and>
   snd (mixed_candidates quarterly_only None) = [''/in/edgar_data_123_10-Q.txt''] \<and>
   snd (mixed_candidates quarterly_only (Some {''0000000123''})) = []"
proof -
  let ?fp = "''/in/edgar_data_123_10-Q.txt''" and ?F = "{''0000000123''}"
  have h1: "in_filter ?F (extract_cik_from_name (path_name ?fp))" by code_simp
  have n10k: "\<not> is_10k (path_name ?fp)" by code_simp
  then have h2: "\<not> is_10k (path_name ?fp) \<or>
      starts_10q (snd (snd (parse_filename_metadata quarterly_only ?fp)))" by simp
  note T = quarterly_excluded_under_filter [OF h1 h2]
  have c: "snd (mixed_candidates quarterly_only None) = [?fp]"
    "snd (mixed_candidates quarterly_only (Some ?F)) = []"
    "fst (mixed_candidates quarterly_only (Some ?F)) = []"
    by code_simp+
  have s: "fst (select_filings_to_process quarterly_only []) = []" by code_simp
  have "?fp \<notin> set (fst (mixed_selection quarterly_only (Some ?F)))"
    using T [THEN conjunct2, THEN conjunct1] by (simp add: c s)
  moreover have "\<not> match (Some ?F) ?fp"
    using T [THEN conjunct2, THEN conjunct2, THEN conjunct1] n10k by simp
  moreover have "match None ?fp"
    using T by simp
  ultimately show ?thesis using c by simp
qed

section \<open>Copies of one document in the selection\<close>


















text \<open>
  Claim C1 (rule A), for the registry that holds any candidates \<open>cs\<close>, added in discovery
  order, and the selection over its groups. Of a group with an Annual candidate exactly one
  candidate is in \<open>process\<close>: the first Annual candidate of the group in discovery order;
  and every other candidate of the group is in \<open>skip\<close>.
\<close>

theorem annual_precedence:
  assumes "g \<in> set (registry_groups (registry_of cs))"
    and "\<exists>a \<in> set g. bucket_of (form_type a) = Annual"
  shows "\<exists>c. c = hd [a \<leftarrow> g. bucket_of (form_type a) = Annual] \<and>
             c \<in> set g \<and> bucket_of (form_type c) = Annual \<and>
             set g \<inter> fst (select (registry_groups (registry_of cs))) = {c} \<and>
             set g - {c} \<subseteq> snd (select (registry_groups (registry_of cs)))"
proof -
  let ?c = "hd [a \<leftarrow> g. bucket_of (form_type a) = Annual]"
  from assms(1) obtain k where k: "(k, g) \<in> set (registry_of cs)"
    by (auto dest: registry_group_entry)
  note inv = registry_inv_registry_of [of cs]
  from choose_candidate_annual [OF assms(2)]
  have ch: "choose_candidate g = Some ?c" and an: "bucket_of (form_type ?c) = Annual" by auto
  from choose_candidate_in [OF ch] have cin: "?c \<in> set g" .
  have "set g \<inter> fst (select (registry_groups (registry_of cs))) = {?c}"
    using select_process_of_group(1) [OF inv k] ch by (simp add: select_group_def)
  moreover have "set g - {?c} \<subseteq> snd (select (registry_groups (registry_of cs)))"
    using select_process_of_group(2) [OF inv k] ch by (auto simp: select_group_def)
  ultimately show ?thesis using cin an by blast
qed


text \<open>
  A group of four: the quarterly filing comes first, and the first of the two annual filings
  is the one processed.
\<close>

theorem annual_precedence_witness:
  "set mixed_group \<inter> fst (select (registry_groups (registry_of mixed_group))) =
     {cand ''/in/k1.txt'' ''10-K''} \<and>
   set mixed_group - {cand ''/in/k1.txt'' ''10-K''} \<subseteq>
     snd (select (registry_groups (registry_of mixed_group))) \<and>
   bucket_of (form_type (cand ''/in/k1.txt'' ''10-K'')) = Annual"
proof -
  have g: "mixed_group \<in> set (registry_groups (registry_of mixed_group))"
    by code_simp
  have a: "\<exists>a \<in> set mixed_group. bucket_of (form_type a) = Annual"
    by code_simp
  have h: "hd [a \<leftarrow> mixed_group. bucket_of (form_type a) = Annual] = cand ''/in/k1.txt'' ''10-K''"
    by code_simp
  from annual_precedence [OF g a] h show ?thesis by simp
qed

text \<open>
  Claim C2, for the registry that holds any candidates \<open>cs\<close>: \<open>process\<close> and \<open>skip\<close> are
  disjoint, together they are the candidates of all groups, and of each group they hold all
  candidates, none of them in both.
\<close>

theorem selection_partitions:
  "fst (select (registry_groups (registry_of cs))) \<inter>
     snd (select (registry_groups (registry_of cs))) = {} \<and>
   fst (select (registry_groups (registry_of cs))) \<union>
     snd (select (registry_groups (registry_of cs))) =
     (\<Union>g \<in> set (registry_groups (registry_of cs)). set g) \<and>
   (\<forall>g \<in> set (registry_groups (registry_of cs)).
      set g \<inter> fst (select (registry_groups (registry_of cs))) \<union>
      set g \<inter> snd (select (registry_groups (registry_of cs))) = set g \<and>
      set g \<inter> fst (select (registry_groups (registry_of cs))) \<inter>
      snd (select (registry_groups (registry_of cs))) = {})"
proof -
  let ?reg = "registry_of cs"
  let ?P = "fst (select (registry_groups ?reg))" and ?S = "snd (select (registry_groups ?reg))"
  note inv = registry_inv_registry_of [of cs]
  have per: "set g \<inter> ?P \<union> set g \<inter> ?S = set g \<and> set g \<inter> ?P \<inter> ?S = {}"
    if "g \<in> set (registry_groups ?reg)" for g
  proof -
    from that obtain k where k: "(k, g) \<in> set ?reg" by (auto dest: registry_group_entry)
    have "set g \<inter> ?P \<inter> ?S = (set g \<inter> ?P) \<inter> (set g \<inter> ?S)" by auto
    then show ?thesis
      using select_process_of_group [OF inv k] select_group_sets [of g] by simp
  qed
  have un: "?P \<union> ?S = (\<Union>g \<in> set (registry_groups ?reg). set g)"
    using select_group_sets(1) by (auto simp: select_sets)
  have sub: "?P \<subseteq> (\<Union>g \<in> set (registry_groups ?reg). set g)"
    using un by auto
  have "?P \<inter> ?S = {}"
  proof (rule ccontr)
    assume "?P \<inter> ?S \<noteq> {}"
    then obtain c where c: "c \<in> ?P" "c \<in> ?S" by auto
    with sub obtain g where g: "g \<in> set (registry_groups ?reg)" "c \<in> set g" by auto
    with per [OF g(1)] c show False by auto
  qed
  with un per show ?thesis by blast
qed

text \<open>
  The same group of four: the annual filing \<open>/in/k1.txt\<close> is processed, the other three
  candidates are skipped.
\<close>

theorem selection_partitions_witness:
  "fst (select (registry_groups (registry_of mixed_group))) \<inter>
     snd (select (registry_groups (registry_of mixed_group))) = {} \<and>
   set mixed_group \<inter> fst (select (registry_groups (registry_of mixed_group))) \<union>
   set mixed_group \<inter> snd (select (registry_groups (registry_of mixed_group))) = set mixed_group \<and>
   fst (select (registry_groups (registry_of mixed_group))) = {cand ''/in/k1.txt'' ''10-K''}"
proof -
  note T = selection_partitions [of mixed_group]
  have g: "mixed_group \<in> set (registry_groups (registry_of mixed_group))"
    by code_simp
  have p: "fst (select (registry_groups (registry_of mixed_group))) = {cand ''/in/k1.txt'' ''10-K''}"
    by code_simp
  from T [THEN conjunct2, THEN conjunct2, THEN bspec, OF g] T [THEN conjunct1] p
  show ?thesis by simp
qed

text \<open>
  Claim C3. The counter \<open>skipped_10q\<close> that \<open>process_mixed_directory\<close> returns is the
  number of files of the set \<open>to_skip\<close> whose parsed form type starts with \<open>10-Q\<close>, where
  \<open>to_skip\<close> is the set of the files the selection returns under \<open>skip\<close>; this holds for
  every parser and every selection. In the scenario, the candidates are an annual file \<open>k\<close>
  and a quarterly file \<open>q\<close>, in either order, which the parser puts under one filer and
  year, there is no filter, and the selection is the one of the specification: then only
  \<open>k\<close> is processed, \<open>q\<close> is skipped, and the counter is 1.
\<close>

theorem skipped_quarterly_counter:
  "skipped_10q (combined (process_mixed_directory e r flt)) =
     card {fp \<in> set (snd (mixed_selection e flt)).
             starts_10q (snd (snd (parse_filename_metadata e fp)))} \<and>
   set (snd (mixed_selection e flt)) =
     set (snd (select_filings_to_process e
            (register e flt (fst (mixed_candidates e flt) @ snd (mixed_candidates e flt))))) \<and>
   (\<forall>e' c y org k q.
      (fst (mixed_candidates e' None) @ snd (mixed_candidates e' None) = [k, q] \<or>
       fst (mixed_candidates e' None) @ snd (mixed_candidates e' None) = [q, k]) \<and>
      k \<noteq> q \<and>
      parse_filename_metadata e' k = (Some c, Some y, Some ''10-K'') \<and>
      parse_filename_metadata e' q = (Some c, Some y, Some ''10-Q'') \<and>
      c \<noteq> [] \<and> y \<noteq> 0 \<and>
      select_filings_to_process e' = fm_select org
      \<longrightarrow> fst (mixed_selection e' None) = [k] \<and>
          snd (mixed_selection e' None) = [q] \<and>
          skipped_10q (combined (process_mixed_directory e' r None)) = 1)"
proof (intro conjI allI impI)
  let ?P = "\<lambda>fp. starts_10q (snd (snd (parse_filename_metadata e fp)))"
  have d: "distinct (snd (mixed_selection e flt))"
    by (simp add: mixed_selection_def split: prod.splits)
  have "{fp \<in> set (snd (mixed_selection e flt)). ?P fp} =
        {fp. ?P fp} \<inter> set (snd (mixed_selection e flt))" by auto
  with distinct_length_filter [OF d, of ?P]
  show "skipped_10q (combined (process_mixed_directory e r flt)) =
     card {fp \<in> set (snd (mixed_selection e flt)). ?P fp}"
    by (simp add: process_mixed_directory_skipped)
next
  show "set (snd (mixed_selection e flt)) =
     set (snd (select_filings_to_process e
            (register e flt (fst (mixed_candidates e flt) @ snd (mixed_candidates e flt)))))"
    by (simp add: mixed_selection_def split: prod.splits)
next
  fix e' c y org k q
  assume a: "(fst (mixed_candidates e' None) @ snd (mixed_candidates e' None) = [k, q] \<or>
       fst (mixed_candidates e' None) @ snd (mixed_candidates e' None) = [q, k]) \<and>
      k \<noteq> q \<and>
      parse_filename_metadata e' k = (Some c, Some y, Some ''10-K'') \<and>
      parse_filename_metadata e' q = (Some c, Some y, Some ''10-Q'') \<and>
      c \<noteq> [] \<and> y \<noteq> 0 \<and>
      select_filings_to_process e' = fm_select org"
  let ?all = "fst (mixed_candidates e' None) @ snd (mixed_candidates e' None)"
  from a have log: "register e' None ?all = [(k, c, y, ''10-K''), (q, c, y, ''10-Q'')] \<or>
                    register e' None ?all = [(q, c, y, ''10-Q''), (k, c, y, ''10-K'')]"
    by (auto simp: mixed_skips_def add_filing_args_def Let_def)
  from a have kq: "k \<noteq> q" and sel: "select_filings_to_process e' = fm_select org" by simp_all
  from log fm_select_pair [OF kq, of org c y]
  have s: "select_filings_to_process e' (register e' None ?all) = ([k], [q])"
    by (auto simp: sel)
  then have ms: "mixed_selection e' None = ([k], [q])"
    by (simp add: mixed_selection_eq)
  then show "fst (mixed_selection e' None) = [k]" "snd (mixed_selection e' None) = [q]"
    by simp_all
  from a have "starts_10q (snd (snd (parse_filename_metadata e' q)))"
    by (simp add: starts_10q_def)
  with ms show "skipped_10q (combined (process_mixed_directory e' r None)) = 1"
    by (simp add: process_mixed_directory_skipped)
qed

text \<open>
  The two files of the scenario, \<open>edgar_data_12345_10-Q.txt\<close> listed before
  \<open>edgar_data_12345_10-K.txt\<close>.
\<close>

theorem skipped_quarterly_counter_witness:
  "fst (mixed_selection annual_and_quarterly None) = [''/in/edgar_data_12345_10-K.txt''] \<and>
   snd (mixed_selection annual_and_quarterly None) = [''/in/edgar_data_12345_10-Q.txt''] \<and>
   skipped_10q (combined (process_mixed_directory annual_and_quarterly True None)) = 1"
proof -
  let ?k = "''/in/edgar_data_12345_10-K.txt''" and ?q = "''/in/edgar_data_12345_10-Q.txt''"
  have c: "fst (mixed_candidates annual_and_quarterly None) @
           snd (mixed_candidates annual_and_quarterly None) = [?q, ?k]"
    by code_simp
  have p: "parse_filename_metadata annual_and_quarterly ?k =
             (Some ''0000012345'', Some 2020, Some ''10-K'')"
    "parse_filename_metadata annual_and_quarterly ?q =
             (Some ''0000012345'', Some 2020, Some ''10-Q'')"
    by code_simp+
  have s: "select_filings_to_process annual_and_quarterly = fm_select (\<lambda>p. Loose)"
    by (simp add: annual_and_quarterly_def example_env_def)
  have h: "(fst (mixed_candidates annual_and_quarterly None) @
            snd (mixed_candidates annual_and_quarterly None) = [?k, ?q] \<or>
           fst (mixed_candidates annual_and_quarterly None) @
            snd (mixed_candidates annual_and_quarterly None) = [?q, ?k]) \<and>
      ?k \<noteq> ?q \<and>
      parse_filename_metadata annual_and_quarterly ?k =
        (Some ''0000012345'', Some 2020, Some ''10-K'') \<and>
      parse_filename_metadata annual_and_quarterly ?q =
        (Some ''0000012345'', Some 2020, Some ''10-Q'') \<and>
      ''0000012345'' \<noteq> [] \<and> (2020 :: int) \<noteq> 0 \<and>
      select_filings_to_process annual_and_quarterly = fm_select (\<lambda>p. Loose)"
    using c p s by simp
  from skipped_quarterly_counter [of annual_and_quarterly True None, THEN conjunct2, THEN conjunct2,
      THEN spec, THEN spec, THEN spec, THEN spec, THEN spec, THEN spec, THEN mp, OF h]
  show ?thesis .
qed

end

